theory Spec2Isabelle
  imports Main
begin

section \<open>Memory, messages and the transport\<close>

text \<open>
  A C array is a buffer: a function from indices to cells, together with the capacity its
  declaration gives it. The cells of an array that was never written hold whatever the
  initial memory of the process holds, so the initial memory is a parameter of every run.
\<close>

type_synonym 'a buf = "nat \<Rightarrow> 'a"

definition read_block :: "'a buf \<Rightarrow> nat \<Rightarrow> nat \<Rightarrow> 'a list" where
  "read_block b off cnt = map b [off..<off + cnt]"

definition write_block :: "'a buf \<Rightarrow> nat \<Rightarrow> 'a list \<Rightarrow> 'a buf" where
  "write_block b off xs =
     (\<lambda>j. if off \<le> j \<and> j < off + length xs then xs ! (j - off) else b j)"

text \<open>
  The \<open>float\<close> cells of the matrix program. Every integer of magnitude at most \<open>2^24\<close> is a
  single-precision value, and an IEEE operation whose exact result is such an integer
  returns it; \<open>Exact v\<close> is that value. \<open>Inexact\<close> stands for every value the model does not
  track: a result outside that range (where rounding may occur) and whatever follows from it.
\<close>

datatype flt = Exact int | Inexact

definition flt_of_int :: "int \<Rightarrow> flt" where
  "flt_of_int v = (if \<bar>v\<bar> \<le> 2 ^ 24 then Exact v else Inexact)"

fun fadd :: "flt \<Rightarrow> flt \<Rightarrow> flt" where
  "fadd (Exact a) (Exact b) = flt_of_int (a + b)"
| "fadd _ _ = Inexact"

fun fmul :: "flt \<Rightarrow> flt \<Rightarrow> flt" where
  "fmul (Exact a) (Exact b) = flt_of_int (a * b)"
| "fmul _ _ = Inexact"

text \<open>
  What a process does that another process, the console or the launcher can observe, in
  program order. A \<open>Send\<close> carries the message; a \<open>Recv\<close> names the source and the tag it
  waits for. The type \<open>'l\<close> is the program's own type of printed lines.
\<close>

datatype payload = Name string | Ints "int list" | Floats "flt list"

datatype 'l action =
    Print 'l
  | Scatter nat
  | Bcast nat
  | Send nat int payload
  | Recv nat int
  | Finalize
  | Exit int

fun is_comm :: "'l action \<Rightarrow> bool" where
  "is_comm (Scatter _) = True"
| "is_comm (Bcast _) = True"
| "is_comm (Send _ _ _) = True"
| "is_comm (Recv _ _) = True"
| "is_comm _ = False"

fun exit_status :: "'l action list \<Rightarrow> int option" where
  "exit_status [] = None"
| "exit_status (Exit c # _) = Some c"
| "exit_status (_ # as) = exit_status as"

datatype error = OutOfBounds | Stall | Truncated | BadType

record ('m, 'l) proc =
  mem :: 'm
  trace :: "'l action list"

text \<open>
  The transport is the MPI library, outside the repository. Its model follows the MPI
  standard as the programs use it: \<open>MPI_Scatter\<close> hands rank \<open>r\<close> the \<open>r\<close>-th block of
  \<open>cnt\<close> cells of the root's send buffer; a blocking receive from source \<open>src\<close> with tag
  \<open>tag\<close> takes the oldest message that source sent with that tag, and waits forever
  (\<open>Stall\<close>) when there is none. A mailbox holds the messages addressed to one process,
  by source and tag, oldest first.
\<close>

definition mpi_scatter :: "'a list \<Rightarrow> nat \<Rightarrow> nat \<Rightarrow> 'a list" where
  "mpi_scatter sendbuf cnt r = take cnt (drop (r * cnt) sendbuf)"

type_synonym mailbox = "nat \<Rightarrow> int \<Rightarrow> payload list"

definition mpi_recv :: "mailbox \<Rightarrow> nat \<Rightarrow> int \<Rightarrow> error + (payload \<times> mailbox)" where
  "mpi_recv box src tag =
     (case box src tag of
        [] \<Rightarrow> Inl Stall
      | p # ps \<Rightarrow> Inr (p, box(src := (box src)(tag := ps))))"

fun sent_to :: "nat \<Rightarrow> int \<Rightarrow> 'l action list \<Rightarrow> payload list" where
  "sent_to dst tag [] = []"
| "sent_to dst tag (Send d t p # as) =
     (if d = dst \<and> t = tag then p # sent_to dst tag as else sent_to dst tag as)"
| "sent_to dst tag (_ # as) = sent_to dst tag as"

text \<open>The calls a trace receives with, in program order: source and tag.\<close>

fun recvs :: "'l action list \<Rightarrow> (nat \<times> int) list" where
  "recvs [] = []"
| "recvs (Recv s t # as) = (s, t) # recvs as"
| "recvs (_ # as) = recvs as"

fun printed :: "'l action list \<Rightarrow> 'l list" where
  "printed [] = []"
| "printed (Print l # as) = l # printed as"
| "printed (_ # as) = printed as"

text \<open>The trace of a run; a run that fails leaves none.\<close>

definition trace_of :: "error + ('m, 'l) proc \<Rightarrow> 'l action list" where
  "trace_of r = (case r of Inl _ \<Rightarrow> [] | Inr p \<Rightarrow> trace p)"

text \<open>Sequencing of steps that may fail, and a \<open>for\<close> loop whose body may fail: the first
  failure ends the loop.\<close>

definition bindE :: "error + 'a \<Rightarrow> ('a \<Rightarrow> error + 'b) \<Rightarrow> error + 'b" where
  "bindE x f = (case x of Inl e \<Rightarrow> Inl e | Inr v \<Rightarrow> f v)"

fun forE :: "nat list \<Rightarrow> (nat \<Rightarrow> 's \<Rightarrow> error + 's) \<Rightarrow> 's \<Rightarrow> error + 's" where
  "forE [] body s = Inr s"
| "forE (i # is) body s =
     (case body i s of Inl e \<Rightarrow> Inl e | Inr s' \<Rightarrow> forE is body s')"

section \<open>matrix\_add\_v2.c\<close>

definition MAXPROC :: nat where "MAXPROC = 8"
definition NAMELEN :: nat where "NAMELEN = 80"
definition LENGTH :: nat where "LENGTH = 48"
definition nametag :: int where "nametag = 42"
definition datatag :: int where "datatag = 43"

text \<open>
  The arrays of \<open>main\<close>. \<open>hostname\<close> has \<open>MAXPROC\<close> slots, each of the five integer arrays
  has \<open>LENGTH\<close> cells. A host name is the string its \<open>NAMELEN\<close>-byte buffer holds. The
  integer cells are C \<open>int\<close>s, modelled as integers: the values the program stores are the
  elements \<open>0 .. 2*LENGTH-1\<close> of \<open>A\<close> and \<open>B\<close> and sums of two of them, far from overflow.
\<close>

record add_mem =
  hostname :: "string buf"
  A :: "int buf"
  B :: "int buf"
  localA :: "int buf"
  localB :: "int buf"
  localSum :: "int buf"

text \<open>The lines the program prints, one constructor for each \<open>printf\<close> group.\<close>

datatype add_line =
    Usage nat nat
  | Distributing nat string nat
  | Receiving nat string
  | LocalData nat string "int list" "int list" "int list"
  | SumsFrom nat string "int list"
  | Ready
  | SentBack nat string

type_synonym add_proc = "(add_mem, add_line) proc"

text \<open>Lines 46-53: process 0 fills \<open>A\<close> with \<open>0 .. LENGTH-1\<close> and \<open>B\<close> with \<open>LENGTH .. 2*LENGTH-1\<close>.\<close>

definition add_init :: "add_mem \<Rightarrow> add_mem" where
  "add_init m =
     (let m1 = fold (\<lambda>i m. m\<lparr>A := (A m)(i := int i)\<rparr>) [0..<LENGTH] m;
          m2 = fold (\<lambda>i m. m\<lparr>B := (B m)(i := int LENGTH + int i)\<rparr>) [0..<LENGTH] m1
      in m2)"

text \<open>The test of lines 56 and 108.\<close>

definition add_invalid :: "nat \<Rightarrow> bool" where
  "add_invalid np = (np > MAXPROC \<or> LENGTH mod np \<noteq> 0)"

text \<open>
  Lines 67-68 and 116-117: both arrays are scattered in blocks of \<open>LENGTH/np\<close> cells.
  \<open>srcA\<close> and \<open>srcB\<close> are the contents of the root's send buffers, which is what the
  transport reads; the send buffer argument of a process other than the root is ignored.
\<close>

definition add_scatter :: "nat \<Rightarrow> nat \<Rightarrow> int list \<Rightarrow> int list \<Rightarrow> add_mem \<Rightarrow> add_mem" where
  "add_scatter np me srcA srcB m =
     (let m1 = m\<lparr>localA := write_block (localA m) 0 (mpi_scatter srcA (LENGTH div np) me)\<rparr>;
          m2 = m1\<lparr>localB := write_block (localB m1) 0 (mpi_scatter srcB (LENGTH div np) me)\<rparr>
      in m2)"

text \<open>Lines 71-73, the loop of the branch of process 0.\<close>

definition add_compute_root :: "nat \<Rightarrow> add_mem \<Rightarrow> add_mem" where
  "add_compute_root np m =
     fold (\<lambda>i m. m\<lparr>localSum := (localSum m)(i := localA m i + localB m i)\<rparr>)
       [0..<LENGTH div np] m"

text \<open>Lines 120-122, the loop of the branch of the other processes.\<close>

definition add_compute_worker :: "nat \<Rightarrow> add_mem \<Rightarrow> add_mem" where
  "add_compute_worker np m =
     fold (\<lambda>i m. m\<lparr>localSum := (localSum m)(i := localA m i + localB m i)\<rparr>)
       [0..<LENGTH div np] m"

text \<open>
  The same two loops over the three arrays they touch, with the addition of the cells as a
  parameter: whatever the machine's \<open>int\<close> addition computes, it is a function \<open>pl\<close> of its
  operands.
\<close>

definition add_loop_root :: "('a \<Rightarrow> 'a \<Rightarrow> 'a) \<Rightarrow> nat \<Rightarrow> 'a buf \<Rightarrow> 'a buf \<Rightarrow> 'a buf \<Rightarrow> 'a buf" where
  "add_loop_root pl np la lb ls =
     fold (\<lambda>i ls. ls(i := pl (la i) (lb i))) [0..<LENGTH div np] ls"

definition add_loop_worker :: "('a \<Rightarrow> 'a \<Rightarrow> 'a) \<Rightarrow> nat \<Rightarrow> 'a buf \<Rightarrow> 'a buf \<Rightarrow> 'a buf \<Rightarrow> 'a buf" where
  "add_loop_worker pl np la lb ls =
     fold (\<lambda>i ls. ls(i := pl (la i) (lb i))) [0..<LENGTH div np] ls"

text \<open>Lines 76-89 and 125-138: a process prints its blocks of \<open>A\<close> and \<open>B\<close> and their sums.\<close>

definition add_local_data :: "nat \<Rightarrow> nat \<Rightarrow> string \<Rightarrow> add_mem \<Rightarrow> add_line" where
  "add_local_data np me myname m =
     LocalData me myname
       (read_block (localA m) 0 (LENGTH div np))
       (read_block (localB m) 0 (LENGTH div np))
       (read_block (localSum m) 0 (LENGTH div np))"

text \<open>
  Lines 93-100, the body of the collection loop for source \<open>i\<close>: the host name is received
  into \<open>hostname[i]\<close>, the sums into \<open>localSum\<close>, the buffer of the process's own sums, and
  both are printed. A message longer than the receive count is an error of the transport.
  The loop runs only after the check \<open>np \<le> MAXPROC\<close>, so \<open>hostname[i]\<close> exists, and the receive
  count \<open>LENGTH/np\<close> is within the \<open>LENGTH\<close> cells of \<open>localSum\<close>.
\<close>

definition add_collect_step ::
  "nat \<Rightarrow> nat \<Rightarrow> add_proc \<times> mailbox \<Rightarrow> error + (add_proc \<times> mailbox)" where
  "add_collect_step np i = (\<lambda>(p, box).
     case mpi_recv box i nametag of
       Inl e \<Rightarrow> Inl e
     | Inr (Ints _, _) \<Rightarrow> Inl BadType
     | Inr (Floats _, _) \<Rightarrow> Inl BadType
     | Inr (Name h, box1) \<Rightarrow>
         (let m1 = (mem p)\<lparr>hostname := (hostname (mem p))(i := h)\<rparr> in
          case mpi_recv box1 i datatag of
            Inl e \<Rightarrow> Inl e
          | Inr (Name _, _) \<Rightarrow> Inl BadType
          | Inr (Floats _, _) \<Rightarrow> Inl BadType
          | Inr (Ints xs, box2) \<Rightarrow>
              if length xs > LENGTH div np then Inl Truncated
              else
                (let m2 = m1\<lparr>localSum := write_block (localSum m1) 0 xs\<rparr> in
                 Inr (\<lparr>mem = m2,
                       trace = trace p @
                         [Recv i nametag, Recv i datatag,
                          Print (SumsFrom i (hostname m2 i)
                                   (read_block (localSum m2) 0 (LENGTH div np)))]\<rparr>,
                      box2))))"

text \<open>Lines 43-103, the branch of process 0. \<open>box\<close> holds the messages addressed to it.\<close>

definition add_root :: "nat \<Rightarrow> string \<Rightarrow> mailbox \<Rightarrow> add_mem \<Rightarrow> error + add_proc" where
  "add_root np myname box m =
     (let m1 = add_init m in
      if np > MAXPROC \<or> LENGTH mod np \<noteq> 0 then
        Inr \<lparr>mem = m1, trace = [Print (Usage LENGTH MAXPROC), Finalize, Exit 0]\<rparr>
      else
        (let m2 = add_scatter np 0
                    (read_block (A m1) 0 (np * (LENGTH div np)))
                    (read_block (B m1) 0 (np * (LENGTH div np))) m1;
             m3 = add_compute_root np m2;
             p = \<lparr>mem = m3,
                  trace = [Print (Distributing 0 myname np),
                           Scatter (LENGTH div np), Scatter (LENGTH div np),
                           Print (add_local_data np 0 myname m3)]\<rparr>
         in case forE [1..<np] (add_collect_step np) (p, box) of
              Inl e \<Rightarrow> Inl e
            | Inr (p', box') \<Rightarrow>
                Inr (p'\<lparr>trace := trace p' @ [Print Ready, Finalize, Exit 0]\<rparr>)))"

text \<open>Lines 105-147, the branch of every other process.\<close>

definition add_worker ::
  "nat \<Rightarrow> nat \<Rightarrow> string \<Rightarrow> int list \<Rightarrow> int list \<Rightarrow> add_mem \<Rightarrow> error + add_proc" where
  "add_worker np me myname srcA srcB m =
     (if np > MAXPROC \<or> LENGTH mod np \<noteq> 0 then
        Inr \<lparr>mem = m, trace = [Finalize, Exit 0]\<rparr>
      else
        (let m1 = add_scatter np me srcA srcB m;
             m2 = add_compute_worker np m1
         in Inr \<lparr>mem = m2,
                 trace = [Print (Receiving me myname),
                          Scatter (LENGTH div np), Scatter (LENGTH div np),
                          Print (add_local_data np me myname m2),
                          Send 0 nametag (Name myname),
                          Send 0 datatag (Ints (read_block (localSum m2) 0 (LENGTH div np))),
                          Print (SentBack me myname),
                          Finalize, Exit 0]\<rparr>))"

text \<open>
  \<open>main\<close> of process \<open>me\<close> in a group of \<open>np\<close> processes, on the host \<open>myname\<close>, with the
  initial memory \<open>m\<close>. The transport supplies \<open>srcA\<close> and \<open>srcB\<close> to a process other than 0,
  and \<open>box\<close> to process 0. MPI starts a group of at least one process and gives each a
  rank below the group size, so \<open>me < np\<close> in every run; at \<open>np = 0\<close>, where C would divide by
  zero, the functions below describe no behaviour of the program.
\<close>

definition add_main ::
  "nat \<Rightarrow> nat \<Rightarrow> string \<Rightarrow> int list \<Rightarrow> int list \<Rightarrow> mailbox \<Rightarrow> add_mem \<Rightarrow> error + add_proc" where
  "add_main np me myname srcA srcB box m =
     (if me = 0 then add_root np myname box m
      else add_worker np me myname srcA srcB m)"

text \<open>
  A run of the whole group: host \<open>names r\<close> and initial memory \<open>m0 r\<close> for each rank \<open>r\<close>.
  The root's send buffers are what process 0 holds in \<open>A\<close> and \<open>B\<close> when it calls
  \<open>MPI_Scatter\<close>; the mailbox of process 0 holds what the other processes send to it. The
  processes interact only through the scatters and these messages, every call blocks, and a
  receive names its source and tag: the outcome does not depend on how the steps of
  different processes interleave, and the run of each rank is a function of the group.
\<close>

definition add_srcA :: "nat \<Rightarrow> (nat \<Rightarrow> add_mem) \<Rightarrow> int list" where
  "add_srcA np m0 = read_block (A (add_init (m0 0))) 0 (np * (LENGTH div np))"

definition add_srcB :: "nat \<Rightarrow> (nat \<Rightarrow> add_mem) \<Rightarrow> int list" where
  "add_srcB np m0 = read_block (B (add_init (m0 0))) 0 (np * (LENGTH div np))"

definition add_box :: "nat \<Rightarrow> (nat \<Rightarrow> string) \<Rightarrow> (nat \<Rightarrow> add_mem) \<Rightarrow> mailbox" where
  "add_box np names m0 = (\<lambda>src tag.
     if 0 < src \<and> src < np then
       sent_to 0 tag
         (trace_of (add_main np src (names src) (add_srcA np m0) (add_srcB np m0) (\<lambda>_ _. []) (m0 src)))
     else [])"

definition add_run ::
  "nat \<Rightarrow> (nat \<Rightarrow> string) \<Rightarrow> (nat \<Rightarrow> add_mem) \<Rightarrow> nat \<Rightarrow> error + add_proc" where
  "add_run np names m0 me =
     add_main np me (names me) (add_srcA np m0) (add_srcB np m0) (add_box np names m0) (m0 me)"

section \<open>scatter\_matrix\_mult.c\<close>

definition N :: nat where "N = 16"
definition resulttag :: int where "resulttag = 45"

text \<open>
  The arrays of \<open>main\<close>, two-dimensional ones in row-major order as C lays them out:
  \<open>matA[i][j]\<close> is cell \<open>i * N + j\<close>. The capacities are those of the declarations of
  lines 21-27.
\<close>

record mm_mem =
  mm_hostname :: "string buf"
  matA :: "flt buf"
  matX :: "flt buf"
  result :: "flt buf"
  mm_localA :: "flt buf"
  localResult :: "flt buf"

definition cap_hostname :: nat where "cap_hostname = 4"
definition cap_matA :: nat where "cap_matA = N * N"
definition cap_matX :: nat where "cap_matX = N"
definition cap_result :: nat where "cap_result = N"
definition cap_localA :: nat where "cap_localA = (N div 4) * N"
definition cap_localResult :: nat where "cap_localResult = N div 4"

datatype mm_line =
    NumProcs nat
  | MatrixA "flt list"
  | VectorX "flt list"
  | ResultVec "flt list"
  | Computed nat string "flt list"

type_synonym mm_proc = "(mm_mem, mm_line) proc"

text \<open>Line 40.\<close>

definition rows_per_proc :: "nat \<Rightarrow> nat" where
  "rows_per_proc np = N div np"

text \<open>Lines 46-51: \<open>matA[i][j] = i * N + j\<close> and \<open>matX[i] = i + 1\<close>, integers stored as floats.\<close>

definition mm_init :: "mm_mem \<Rightarrow> mm_mem" where
  "mm_init m =
     fold (\<lambda>i m.
        (let m1 = fold (\<lambda>j m. m\<lparr>matA := (matA m)(i * N + j := flt_of_int (int i * int N + int j))\<rparr>)
                    [0..<N] m
         in m1\<lparr>matX := (matX m1)(i := flt_of_int (int i + 1))\<rparr>))
       [0..<N] m"

text \<open>
  Lines 69-71 and 104-106: \<open>rows_per_proc * N\<close> cells are received into \<open>localA\<close>, from its
  first cell on. \<open>srcA\<close> is the contents of the root's send buffer.
\<close>

definition mm_scatter :: "nat \<Rightarrow> nat \<Rightarrow> flt list \<Rightarrow> mm_mem \<Rightarrow> error + mm_mem" where
  "mm_scatter np me srcA m =
     (if rows_per_proc np * N \<le> cap_localA then
        Inr (m\<lparr>mm_localA := write_block (mm_localA m) 0 (mpi_scatter srcA (rows_per_proc np * N) me)\<rparr>)
      else Inl OutOfBounds)"

text \<open>
  Lines 77-82, the loop of the branch of process 0. The first statement of the body writes
  \<open>localResult[i]\<close>, which exists for \<open>i < N/4\<close>; then row \<open>i\<close> of \<open>localA\<close> and the cells
  \<open>j < N\<close> of \<open>matX\<close> exist too.
\<close>

definition mm_compute_root :: "nat \<Rightarrow> mm_mem \<Rightarrow> error + mm_mem" where
  "mm_compute_root np m =
     forE [0..<rows_per_proc np] (\<lambda>i m.
       if i < cap_localResult then
         Inr (fold (\<lambda>j m. m\<lparr>localResult := (localResult m)
                      (i := fadd (localResult m i) (fmul (mm_localA m (i * N + j)) (matX m j)))\<rparr>)
                [0..<N] (m\<lparr>localResult := (localResult m)(i := Exact 0)\<rparr>))
       else Inl OutOfBounds) m"

text \<open>Lines 112-117, the loop of the branch of the other processes.\<close>

definition mm_compute_worker :: "nat \<Rightarrow> mm_mem \<Rightarrow> error + mm_mem" where
  "mm_compute_worker np m =
     forE [0..<rows_per_proc np] (\<lambda>i m.
       if i < cap_localResult then
         Inr (fold (\<lambda>j m. m\<lparr>localResult := (localResult m)
                      (i := fadd (localResult m i) (fmul (mm_localA m (i * N + j)) (matX m j)))\<rparr>)
                [0..<N] (m\<lparr>localResult := (localResult m)(i := Exact 0)\<rparr>))
       else Inl OutOfBounds) m"

text \<open>
  The same two loops over the three arrays they touch, \<open>localA\<close>, \<open>matX\<close> and \<open>localResult\<close>,
  with the arithmetic of the cells as parameters: \<open>add\<close> for \<open>+\<close>, \<open>mul\<close> for \<open>*\<close> and \<open>zero\<close> for
  \<open>0.0\<close>. Whatever single-precision addition and multiplication compute, they are
  functions of their operands, and these definitions hold for every such pair.
\<close>

definition mm_loop_root ::
  "('f \<Rightarrow> 'f \<Rightarrow> 'f) \<Rightarrow> ('f \<Rightarrow> 'f \<Rightarrow> 'f) \<Rightarrow> 'f \<Rightarrow> nat \<Rightarrow>
     'f buf \<Rightarrow> 'f buf \<Rightarrow> 'f buf \<Rightarrow> error + 'f buf" where
  "mm_loop_root add mul zero np la x lr =
     forE [0..<rows_per_proc np] (\<lambda>i lr.
       if i < cap_localResult then
         Inr (fold (\<lambda>j lr. lr(i := add (lr i) (mul (la (i * N + j)) (x j)))) [0..<N] (lr(i := zero)))
       else Inl OutOfBounds) lr"

definition mm_loop_worker ::
  "('f \<Rightarrow> 'f \<Rightarrow> 'f) \<Rightarrow> ('f \<Rightarrow> 'f \<Rightarrow> 'f) \<Rightarrow> 'f \<Rightarrow> nat \<Rightarrow>
     'f buf \<Rightarrow> 'f buf \<Rightarrow> 'f buf \<Rightarrow> error + 'f buf" where
  "mm_loop_worker add mul zero np la x lr =
     forE [0..<rows_per_proc np] (\<lambda>i lr.
       if i < cap_localResult then
         Inr (fold (\<lambda>j lr. lr(i := add (lr i) (mul (la (i * N + j)) (x j)))) [0..<N] (lr(i := zero)))
       else Inl OutOfBounds) lr"

text \<open>Lines 85-87: process 0 copies its own results to the head of \<open>result\<close>.\<close>

definition mm_copy :: "nat \<Rightarrow> mm_mem \<Rightarrow> error + mm_mem" where
  "mm_copy np m =
     forE [0..<rows_per_proc np] (\<lambda>i m.
       if i < cap_result \<and> i < cap_localResult then
         Inr (m\<lparr>result := (result m)(i := localResult m i)\<rparr>)
       else Inl OutOfBounds) m"

text \<open>
  Lines 91-92, the body of the collection loop for source \<open>i\<close>: one receive, with the tag
  \<open>resulttag\<close>, into \<open>result\<close> from cell \<open>i * rows_per_proc\<close> on.
\<close>

definition mm_collect_step ::
  "nat \<Rightarrow> nat \<Rightarrow> mm_proc \<times> mailbox \<Rightarrow> error + (mm_proc \<times> mailbox)" where
  "mm_collect_step np i = (\<lambda>(p, box).
     case mpi_recv box i resulttag of
       Inl e \<Rightarrow> Inl e
     | Inr (Name _, _) \<Rightarrow> Inl BadType
     | Inr (Ints _, _) \<Rightarrow> Inl BadType
     | Inr (Floats xs, box1) \<Rightarrow>
         if length xs > rows_per_proc np then Inl Truncated
         else if i * rows_per_proc np + length xs > cap_result then Inl OutOfBounds
         else
           Inr (\<lparr>mem = (mem p)\<lparr>result := write_block (result (mem p)) (i * rows_per_proc np) xs\<rparr>,
                 trace = trace p @ [Recv i resulttag]\<rparr>,
                box1))"

text \<open>Lines 42-100 and 130-131, the branch of process 0.\<close>

definition mm_root :: "nat \<Rightarrow> string \<Rightarrow> mailbox \<Rightarrow> mm_mem \<Rightarrow> error + mm_proc" where
  "mm_root np myname box m =
     (let m1 = mm_init m;
          t1 = [Print (NumProcs np),
                Print (MatrixA (read_block (matA m1) 0 (N * N))),
                Print (VectorX (read_block (matX m1) 0 N))]
      in if np * (rows_per_proc np * N) > cap_matA then Inl OutOfBounds
         else
           bindE (mm_scatter np 0 (read_block (matA m1) 0 (np * (rows_per_proc np * N))) m1) (\<lambda>m2.
           bindE (mm_compute_root np m2) (\<lambda>m3.
           bindE (mm_copy np m3) (\<lambda>m4.
           bindE (forE [1..<np] (mm_collect_step np)
                    (\<lparr>mem = m4, trace = t1 @ [Scatter (rows_per_proc np * N), Bcast N]\<rparr>, box))
             (\<lambda>(p, box').
                Inr (p\<lparr>trace := trace p @
                       [Print (ResultVec (read_block (result (mem p)) 0 N)),
                        Finalize, Exit 0]\<rparr>))))))"

text \<open>
  Lines 101-131, the branch of every other process. \<open>srcX\<close> is the contents of the root's
  \<open>matX\<close>, which the broadcast copies into the process's own \<open>matX\<close>.
\<close>

definition mm_worker ::
  "nat \<Rightarrow> nat \<Rightarrow> string \<Rightarrow> flt list \<Rightarrow> flt list \<Rightarrow> mm_mem \<Rightarrow> error + mm_proc" where
  "mm_worker np me myname srcA srcX m =
     bindE (mm_scatter np me srcA m) (\<lambda>m1.
     (let m2 = m1\<lparr>matX := write_block (matX m1) 0 (take N srcX)\<rparr> in
      bindE (mm_compute_worker np m2) (\<lambda>m3.
      Inr \<lparr>mem = m3,
           trace = [Scatter (rows_per_proc np * N), Bcast N,
                    Print (Computed me myname (read_block (localResult m3) 0 (rows_per_proc np))),
                    Send 0 resulttag (Floats (read_block (localResult m3) 0 (rows_per_proc np))),
                    Finalize, Exit 0]\<rparr>)))"

definition mm_main ::
  "nat \<Rightarrow> nat \<Rightarrow> string \<Rightarrow> flt list \<Rightarrow> flt list \<Rightarrow> mailbox \<Rightarrow> mm_mem \<Rightarrow> error + mm_proc" where
  "mm_main np me myname srcA srcX box m =
     (if me = 0 then mm_root np myname box m
      else mm_worker np me myname srcA srcX m)"

text \<open>A run of the whole group, as for the other program.\<close>

definition mm_srcA :: "nat \<Rightarrow> (nat \<Rightarrow> mm_mem) \<Rightarrow> flt list" where
  "mm_srcA np m0 = read_block (matA (mm_init (m0 0))) 0 (np * (rows_per_proc np * N))"

definition mm_srcX :: "(nat \<Rightarrow> mm_mem) \<Rightarrow> flt list" where
  "mm_srcX m0 = read_block (matX (mm_init (m0 0))) 0 N"

definition mm_box :: "nat \<Rightarrow> (nat \<Rightarrow> string) \<Rightarrow> (nat \<Rightarrow> mm_mem) \<Rightarrow> mailbox" where
  "mm_box np names m0 = (\<lambda>src tag.
     if 0 < src \<and> src < np then
       sent_to 0 tag
         (trace_of (mm_main np src (names src) (mm_srcA np m0) (mm_srcX m0) (\<lambda>_ _. []) (m0 src)))
     else [])"

definition mm_run ::
  "nat \<Rightarrow> (nat \<Rightarrow> string) \<Rightarrow> (nat \<Rightarrow> mm_mem) \<Rightarrow> nat \<Rightarrow> error + mm_proc" where
  "mm_run np names m0 me =
     mm_main np me (names me) (mm_srcA np m0) (mm_srcX m0) (mm_box np names m0) (m0 me)"

section \<open>Observations on runs\<close>

text \<open>
  The sums a printed line of the addition program shows, and the sequence of all the sums
  process 0 reports, in the order it prints them: its own block first, then the block of
  each source of the collection loop.
\<close>

fun sums_of_line :: "add_line \<Rightarrow> int list" where
  "sums_of_line (LocalData _ _ _ _ ls) = ls"
| "sums_of_line (SumsFrom _ _ xs) = xs"
| "sums_of_line _ = []"

definition reported_sums :: "add_line action list \<Rightarrow> int list" where
  "reported_sums tr = concat (map sums_of_line (printed tr))"

text \<open>
  The value the inner loop of lines 78-81 (and 113-116) leaves in \<open>localResult[i]\<close>: the
  accumulation, from \<open>0.0\<close>, of the products of row \<open>i\<close> of \<open>a\<close> with \<open>x\<close>, in the order of the loop.
\<close>

definition dot_row :: "flt buf \<Rightarrow> flt buf \<Rightarrow> nat \<Rightarrow> flt" where
  "dot_row a x i = fold (\<lambda>j acc. fadd acc (fmul (a (i * N + j)) (x j))) [0..<N] (Exact 0)"

fun is_usage :: "add_line \<Rightarrow> bool" where
  "is_usage (Usage _ _) = True"
| "is_usage _ = False"

text \<open>Initial memories for concrete runs: every integer cell 0, every float cell unknown.\<close>

definition add_mem0 :: add_mem where
  "add_mem0 = \<lparr>hostname = (\<lambda>_. []), A = (\<lambda>_. 0), B = (\<lambda>_. 0),
               localA = (\<lambda>_. 0), localB = (\<lambda>_. 0), localSum = (\<lambda>_. 0)\<rparr>"

definition mm_mem0 :: mm_mem where
  "mm_mem0 = \<lparr>mm_hostname = (\<lambda>_. []), matA = (\<lambda>_. Inexact), matX = (\<lambda>_. Inexact),
              result = (\<lambda>_. Inexact), mm_localA = (\<lambda>_. Inexact), localResult = (\<lambda>_. Inexact)\<rparr>"

text \<open>
  Memories whose cells differ from one another: \<open>add_mem1\<close> and \<open>add_mem2\<close> agree on the first
  12 cells of \<open>localA\<close> and \<open>localB\<close> and nowhere else; \<open>mm_mem1\<close> and \<open>mm_mem2\<close> agree on the
  first 64 cells of \<open>localA\<close> and the 16 cells of \<open>matX\<close> and nowhere else.
\<close>

definition add_mem1 :: add_mem where
  "add_mem1 = \<lparr>hostname = (\<lambda>_. []), A = (\<lambda>_. - 1), B = (\<lambda>_. - 2),
               localA = (\<lambda>j. int j), localB = (\<lambda>j. 100 + int j), localSum = (\<lambda>_. - 3)\<rparr>"

definition add_mem2 :: add_mem where
  "add_mem2 = \<lparr>hostname = (\<lambda>_. ''x''), A = (\<lambda>_. 3), B = (\<lambda>_. 4),
               localA = (\<lambda>j. if j < 12 then int j else 999),
               localB = (\<lambda>j. if j < 12 then 100 + int j else 999),
               localSum = (\<lambda>_. 5)\<rparr>"

definition mm_mem1 :: mm_mem where
  "mm_mem1 = \<lparr>mm_hostname = (\<lambda>_. []), matA = (\<lambda>_. Inexact), matX = (\<lambda>j. Exact (int j + 1)),
              result = (\<lambda>_. Inexact), mm_localA = (\<lambda>k. Exact (int k)),
              localResult = (\<lambda>_. Inexact)\<rparr>"

definition mm_mem2 :: mm_mem where
  "mm_mem2 = \<lparr>mm_hostname = (\<lambda>_. ''x''), matA = (\<lambda>_. Exact 1),
              matX = (\<lambda>j. if j < 16 then Exact (int j + 1) else Exact 0),
              result = (\<lambda>_. Exact 2),
              mm_localA = (\<lambda>k. if k < 64 then Exact (int k) else Exact 0),
              localResult = (\<lambda>_. Exact 7)\<rparr>"

definition host :: "nat \<Rightarrow> string" where
  "host r = (if r = 0 then ''node0'' else if r = 1 then ''node1''
             else if r = 2 then ''node2'' else ''node3'')"

section \<open>Buffers, loops and the transport: basic facts\<close>

lemma read_block_length [simp]: "length (read_block b off cnt) = cnt"
  by (simp add: read_block_def)

lemma read_block_nth [simp]: "i < cnt \<Longrightarrow> read_block b off cnt ! i = b (off + i)"
  by (simp add: read_block_def)

lemma read_block_write_block [simp]:
  "read_block (write_block b off xs) off (length xs) = xs"
  by (rule nth_equalityI) (simp_all add: write_block_def)

lemma forE_append:
  "forE (xs @ ys) body s = bindE (forE xs body s) (forE ys body)"
  by (induction xs arbitrary: s) (auto simp: bindE_def split: sum.splits)

lemma add_compute_root_eq:
  "add_compute_root np m =
     m\<lparr>localSum := (\<lambda>j. if j < LENGTH div np then localA m j + localB m j else localSum m j)\<rparr>"
proof -
  have "fold (\<lambda>i m. m\<lparr>localSum := (localSum m)(i := localA m i + localB m i)\<rparr>) [0..<n] m =
        m\<lparr>localSum := (\<lambda>j. if j < n then localA m j + localB m j else localSum m j)\<rparr>" for n
    by (induction n) (auto simp: fun_eq_iff)
  then show ?thesis by (simp add: add_compute_root_def)
qed

lemma add_init_eq:
  "add_init m = m\<lparr>A := (\<lambda>i. if i < LENGTH then int i else A m i),
                   B := (\<lambda>i. if i < LENGTH then int LENGTH + int i else B m i)\<rparr>"
proof -
  have a: "fold (\<lambda>i m. m\<lparr>A := (A m)(i := int i)\<rparr>) [0..<n] m =
        m\<lparr>A := (\<lambda>i. if i < n then int i else A m i)\<rparr>" for n m
    by (induction n) (auto simp: fun_eq_iff)
  have b: "fold (\<lambda>i m. m\<lparr>B := (B m)(i := int k + int i)\<rparr>) [0..<n] m =
        m\<lparr>B := (\<lambda>i. if i < n then int k + int i else B m i)\<rparr>" for n m k
    by (induction n) (auto simp: fun_eq_iff)
  show ?thesis by (simp add: add_init_def a b Let_def cong: if_cong)
qed


lemma write_block_twice:
  "length xs = length ys \<Longrightarrow> write_block (write_block b off xs) off ys = write_block b off ys"
  by (auto simp: write_block_def fun_eq_iff)

lemma bindE_Inr [simp]: "bindE (Inr v) f = f v"
  by (simp add: bindE_def)

lemma bindE_Inl [simp]: "bindE (Inl e) f = Inl e"
  by (simp add: bindE_def)

lemma tags_distinct [simp]: "nametag \<noteq> datatag" "datatag \<noteq> nametag"
  by (simp_all add: nametag_def datatag_def)

lemma add_collect_step_ok:
  assumes "box i nametag = [Name h]" "box i datatag = [Ints xs]" "length xs = LENGTH div np"
  shows "add_collect_step np i (p, box) =
           Inr (\<lparr>mem = (mem p)\<lparr>hostname := (hostname (mem p))(i := h),
                                localSum := write_block (localSum (mem p)) 0 xs\<rparr>,
                  trace = trace p @ [Recv i nametag, Recv i datatag, Print (SumsFrom i h xs)]\<rparr>,
                box(i := (box i)(nametag := [], datatag := [])))"
proof -
  have "read_block (write_block (localSum (mem p)) 0 xs) 0 (LENGTH div np) = xs"
    using assms(3) read_block_write_block [of "localSum (mem p)" 0 xs] by simp
  then show ?thesis
    using assms by (simp add: add_collect_step_def mpi_recv_def Let_def)
qed

lemma add_collect_loop:
  assumes "\<forall>i. 0 < i \<and> i \<le> k \<longrightarrow>
             box i nametag = [Name (h i)] \<and> box i datatag = [Ints (xs i)] \<and>
             length (xs i) = LENGTH div np"
  shows "forE [1..<Suc k] (add_collect_step np) (p, box) =
           Inr (\<lparr>mem = (mem p)\<lparr>hostname := (\<lambda>i. if 0 < i \<and> i \<le> k then h i else hostname (mem p) i),
                                localSum := (if k = 0 then localSum (mem p)
                                             else write_block (localSum (mem p)) 0 (xs k))\<rparr>,
                  trace = trace p @
                    concat (map (\<lambda>i. [Recv i nametag, Recv i datatag, Print (SumsFrom i (h i) (xs i))])
                              [1..<Suc k])\<rparr>,
                (\<lambda>src tag. if 0 < src \<and> src \<le> k \<and> (tag = nametag \<or> tag = datatag) then []
                            else box src tag))"
  using assms
proof (induction k)
  case 0
  have "(\<lambda>i. if 0 < i \<and> i = 0 then h i else hostname (mem p) i) = hostname (mem p)"
    by (auto simp: fun_eq_iff)
  moreover have "(\<lambda>src tag. if 0 < src \<and> src = 0 \<and> (tag = nametag \<or> tag = datatag) then []
                   else box src tag) = box"
    by (auto simp: fun_eq_iff)
  ultimately show ?case by simp
next
  case (Suc k)
  let ?box = "\<lambda>src tag. if 0 < src \<and> src \<le> k \<and> (tag = nametag \<or> tag = datatag) then []
                          else box src tag"
  have len: "length (xs (Suc k)) = LENGTH div np"
    and bn: "?box (Suc k) nametag = [Name (h (Suc k))]"
    and bd: "?box (Suc k) datatag = [Ints (xs (Suc k))]"
    using Suc.prems by simp_all
  have lenk: "k \<noteq> 0 \<Longrightarrow> length (xs k) = length (xs (Suc k))"
    using Suc.prems by simp
  have split: "[1..<Suc (Suc k)] = [1..<Suc k] @ [Suc k]"
    by simp
  have hn: "(\<lambda>i. if 0 < i \<and> i \<le> k then h i else H i)(Suc k := h (Suc k)) =
            (\<lambda>i. if 0 < i \<and> i \<le> Suc k then h i else H i)" for H :: "string buf"
    by (auto simp: fun_eq_iff)
  have ls: "write_block (if k = 0 then L else write_block L 0 (xs k)) 0 (xs (Suc k)) =
            write_block L 0 (xs (Suc k))" for L
    by (simp add: write_block_twice lenk)
  have bx: "?box(Suc k := (box (Suc k))(nametag := [], datatag := [])) =
            (\<lambda>src tag. if 0 < src \<and> src \<le> Suc k \<and> (tag = nametag \<or> tag = datatag) then []
                        else box src tag)"
    by (auto simp: fun_eq_iff)
  have ih: "forE [1..<Suc k] (add_collect_step np) (p, box) =
           Inr (\<lparr>mem = (mem p)\<lparr>hostname := (\<lambda>i. if 0 < i \<and> i \<le> k then h i else hostname (mem p) i),
                                localSum := (if k = 0 then localSum (mem p)
                                             else write_block (localSum (mem p)) 0 (xs k))\<rparr>,
                  trace = trace p @
                    concat (map (\<lambda>i. [Recv i nametag, Recv i datatag, Print (SumsFrom i (h i) (xs i))])
                              [1..<Suc k])\<rparr>, ?box)"
    using Suc.IH Suc.prems by simp
  show ?case
    unfolding split forE_append ih
    by (simp add: add_collect_step_ok [of ?box "Suc k" "h (Suc k)" "xs (Suc k)" np, OF bn bd len]
          hn ls bx del: upt_Suc)
qed


lemma add_compute_worker_eq:
  "add_compute_worker np m =
     m\<lparr>localSum := (\<lambda>j. if j < LENGTH div np then localA m j + localB m j else localSum m j)\<rparr>"
  using add_compute_root_eq [of np m] by (simp add: add_compute_worker_def add_compute_root_def)

lemma add_valid_mult: "\<not> add_invalid np \<Longrightarrow> np * (LENGTH div np) = LENGTH"
  using mult_div_mod_eq [of np LENGTH] by (simp add: add_invalid_def)

lemma add_valid_block:
  assumes "0 < np" "\<not> add_invalid np" "r < np"
  shows "r * (LENGTH div np) + LENGTH div np \<le> LENGTH"
proof -
  have "Suc r * (LENGTH div np) \<le> np * (LENGTH div np)"
    using assms(3) by (intro mult_le_mono1) simp
  then show ?thesis using add_valid_mult [OF assms(2)] by simp
qed

lemma mpi_scatter_map:
  "r * c + c \<le> n \<Longrightarrow> mpi_scatter (map f [0..<n]) c r = map f [r * c..<r * c + c]"
  by (simp add: mpi_scatter_def take_map drop_map take_upt)

lemma read_block_fill:
  "off + cnt \<le> n \<Longrightarrow> read_block (\<lambda>i. if i < n then f i else g i) off cnt = map f [off..<off + cnt]"
  by (simp add: read_block_def)

lemma add_srcA_eq:
  "0 < np \<Longrightarrow> \<not> add_invalid np \<Longrightarrow> add_srcA np m0 = map int [0..<LENGTH]"
  by (simp add: add_srcA_def add_init_eq add_valid_mult read_block_fill)

lemma add_srcB_eq:
  "0 < np \<Longrightarrow> \<not> add_invalid np \<Longrightarrow> add_srcB np m0 = map (\<lambda>i. int LENGTH + int i) [0..<LENGTH]"
  by (simp add: add_srcB_def add_init_eq add_valid_mult read_block_fill)

lemma read_block_shift:
  "read_block b off cnt = map (\<lambda>j. b (off + j)) [0..<cnt]"
  by (rule nth_equalityI) simp_all

lemma map_upt_shift:
  "map f [off..<off + cnt] = map (\<lambda>j. f (off + j)) [0..<cnt]"
  by (rule nth_equalityI) simp_all

lemma add_local_data_scattered:
  assumes "r * (LENGTH div np) + LENGTH div np \<le> LENGTH"
  shows "add_local_data np r name
           (add_compute_root np
              (add_scatter np r (map int [0..<LENGTH]) (map (\<lambda>i. int LENGTH + int i) [0..<LENGTH]) m)) =
         LocalData r name
           (map int [r * (LENGTH div np)..<r * (LENGTH div np) + LENGTH div np])
           (map (\<lambda>i. int LENGTH + int i) [r * (LENGTH div np)..<r * (LENGTH div np) + LENGTH div np])
           (map (\<lambda>i. int LENGTH + 2 * int i) [r * (LENGTH div np)..<r * (LENGTH div np) + LENGTH div np])"
  using assms
  by (simp add: add_local_data_def add_compute_root_eq add_scatter_def Let_def mpi_scatter_map
        map_upt_shift [of _ "r * (LENGTH div np)"] read_block_shift write_block_def)


lemma add_sums_scattered:
  assumes "r * (LENGTH div np) + LENGTH div np \<le> LENGTH"
  shows "read_block (localSum (add_compute_root np
            (add_scatter np r (map int [0..<LENGTH]) (map (\<lambda>i. int LENGTH + int i) [0..<LENGTH]) m)))
           0 (LENGTH div np) =
         map (\<lambda>i. int LENGTH + 2 * int i) [r * (LENGTH div np)..<r * (LENGTH div np) + LENGTH div np]"
  using add_local_data_scattered [OF assms, of "[]" m] by (simp add: add_local_data_def)

lemma add_compute_same: "add_compute_worker np m = add_compute_root np m"
  by (simp add: add_compute_worker_def add_compute_root_def)

lemma add_worker_valid:
  assumes "\<not> add_invalid np" "r * (LENGTH div np) + LENGTH div np \<le> LENGTH"
  shows "add_worker np r name (map int [0..<LENGTH]) (map (\<lambda>i. int LENGTH + int i) [0..<LENGTH]) m =
         Inr \<lparr>mem = add_compute_worker np
                      (add_scatter np r (map int [0..<LENGTH]) (map (\<lambda>i. int LENGTH + int i) [0..<LENGTH]) m),
              trace = [Print (Receiving r name),
                       Scatter (LENGTH div np), Scatter (LENGTH div np),
                       Print (LocalData r name
                         (map int [r * (LENGTH div np)..<r * (LENGTH div np) + LENGTH div np])
                         (map (\<lambda>i. int LENGTH + int i) [r * (LENGTH div np)..<r * (LENGTH div np) + LENGTH div np])
                         (map (\<lambda>i. int LENGTH + 2 * int i) [r * (LENGTH div np)..<r * (LENGTH div np) + LENGTH div np])),
                       Send 0 nametag (Name name),
                       Send 0 datatag (Ints
                         (map (\<lambda>i. int LENGTH + 2 * int i) [r * (LENGTH div np)..<r * (LENGTH div np) + LENGTH div np])),
                       Print (SentBack r name),
                       Finalize, Exit 0]\<rparr>"
  using assms(1) add_local_data_scattered [OF assms(2), of name m] add_sums_scattered [OF assms(2), of m]
  by (simp add: add_worker_def add_invalid_def Let_def add_compute_same)

lemma add_run_worker:
  assumes "0 < r" "r < np" "\<not> add_invalid np"
  shows "add_run np names m0 r =
         Inr \<lparr>mem = add_compute_worker np
                      (add_scatter np r (map int [0..<LENGTH]) (map (\<lambda>i. int LENGTH + int i) [0..<LENGTH]) (m0 r)),
              trace = [Print (Receiving r (names r)),
                       Scatter (LENGTH div np), Scatter (LENGTH div np),
                       Print (LocalData r (names r)
                         (map int [r * (LENGTH div np)..<r * (LENGTH div np) + LENGTH div np])
                         (map (\<lambda>i. int LENGTH + int i) [r * (LENGTH div np)..<r * (LENGTH div np) + LENGTH div np])
                         (map (\<lambda>i. int LENGTH + 2 * int i) [r * (LENGTH div np)..<r * (LENGTH div np) + LENGTH div np])),
                       Send 0 nametag (Name (names r)),
                       Send 0 datatag (Ints
                         (map (\<lambda>i. int LENGTH + 2 * int i) [r * (LENGTH div np)..<r * (LENGTH div np) + LENGTH div np])),
                       Print (SentBack r (names r)),
                       Finalize, Exit 0]\<rparr>"
proof -
  have np: "0 < np" using assms by simp
  have blk: "r * (LENGTH div np) + LENGTH div np \<le> LENGTH"
    using add_valid_block [OF np assms(3,2)] .
  show ?thesis
    using assms(1) add_worker_valid [OF assms(3) blk]
    by (simp add: add_run_def add_main_def add_srcA_eq [OF np assms(3)] add_srcB_eq [OF np assms(3)])
qed

lemma add_box_valid:
  assumes "0 < r" "r < np" "\<not> add_invalid np"
  shows "add_box np names m0 r nametag = [Name (names r)]"
    and "add_box np names m0 r datatag =
           [Ints (map (\<lambda>i. int LENGTH + 2 * int i) [r * (LENGTH div np)..<r * (LENGTH div np) + LENGTH div np])]"
proof -
  have np: "0 < np" using assms by simp
  have blk: "r * (LENGTH div np) + LENGTH div np \<le> LENGTH"
    using add_valid_block [OF np assms(3,2)] .
  show "add_box np names m0 r nametag = [Name (names r)]"
    using assms(1,2) add_worker_valid [OF assms(3) blk]
    by (simp add: add_box_def add_main_def add_srcA_eq [OF np assms(3)] add_srcB_eq [OF np assms(3)]
          trace_of_def)
  show "add_box np names m0 r datatag =
           [Ints (map (\<lambda>i. int LENGTH + 2 * int i) [r * (LENGTH div np)..<r * (LENGTH div np) + LENGTH div np])]"
    using assms(1,2) add_worker_valid [OF assms(3) blk]
    by (simp add: add_box_def add_main_def add_srcA_eq [OF np assms(3)] add_srcB_eq [OF np assms(3)]
          trace_of_def)
qed

lemma add_root_valid:
  assumes "0 < np" "\<not> add_invalid np"
    and "\<forall>i. 0 < i \<and> i \<le> np - 1 \<longrightarrow>
             box i nametag = [Name (h i)] \<and> box i datatag = [Ints (xs i)] \<and>
             length (xs i) = LENGTH div np"
  shows "add_root np name box m =
         Inr \<lparr>mem = (add_compute_root np
                       (add_scatter np 0 (map int [0..<LENGTH]) (map (\<lambda>i. int LENGTH + int i) [0..<LENGTH])
                          (add_init m)))
                    \<lparr>hostname := (\<lambda>i. if 0 < i \<and> i \<le> np - 1 then h i else hostname m i),
                     localSum := (if np - 1 = 0
                        then localSum (add_compute_root np
                          (add_scatter np 0 (map int [0..<LENGTH]) (map (\<lambda>i. int LENGTH + int i) [0..<LENGTH])
                          (add_init m)))
                        else write_block (localSum (add_compute_root np
                          (add_scatter np 0 (map int [0..<LENGTH]) (map (\<lambda>i. int LENGTH + int i) [0..<LENGTH])
                          (add_init m)))) 0 (xs (np - 1)))\<rparr>,
              trace = [Print (Distributing 0 name np),
                       Scatter (LENGTH div np), Scatter (LENGTH div np),
                       Print (LocalData 0 name
                         (map int [0..<LENGTH div np])
                         (map (\<lambda>i. int LENGTH + int i) [0..<LENGTH div np])
                         (map (\<lambda>i. int LENGTH + 2 * int i) [0..<LENGTH div np]))] @
                      concat (map (\<lambda>i. [Recv i nametag, Recv i datatag, Print (SumsFrom i (h i) (xs i))])
                                [1..<np]) @
                      [Print Ready, Finalize, Exit 0]\<rparr>"
proof -
  have blk: "0 * (LENGTH div np) + LENGTH div np \<le> LENGTH"
    using add_valid_block [OF assms(1,2,1)] .
  have loop: "forE [1..<np] (add_collect_step np) (p, box) =
           Inr (\<lparr>mem = (mem p)\<lparr>hostname := (\<lambda>i. if 0 < i \<and> i \<le> np - 1 then h i else hostname (mem p) i),
                                localSum := (if np - 1 = 0 then localSum (mem p)
                                             else write_block (localSum (mem p)) 0 (xs (np - 1)))\<rparr>,
                  trace = trace p @
                    concat (map (\<lambda>i. [Recv i nametag, Recv i datatag, Print (SumsFrom i (h i) (xs i))])
                              [1..<np])\<rparr>,
                (\<lambda>src tag. if 0 < src \<and> src \<le> np - 1 \<and> (tag = nametag \<or> tag = datatag) then []
                            else box src tag))" for p
    using add_collect_loop [OF assms(3), of p] assms(1) by simp
  have srcA: "read_block (A (add_init m)) 0 (np * (LENGTH div np)) = map int [0..<LENGTH]"
    by (simp add: add_init_eq add_valid_mult [OF assms(2)] read_block_fill)
  have srcB: "read_block (B (add_init m)) 0 (np * (LENGTH div np)) = map (\<lambda>i. int LENGTH + int i) [0..<LENGTH]"
    by (simp add: add_init_eq add_valid_mult [OF assms(2)] read_block_fill)
  have hn: "hostname (add_compute_root np (add_scatter np 0 sa sb (add_init m))) = hostname m" for sa sb
    by (simp add: add_compute_root_eq add_scatter_def add_init_eq Let_def)
  show ?thesis
    using assms(2) add_local_data_scattered [OF blk, of name "add_init m"]
    unfolding add_root_def Let_def srcA srcB loop
    by (simp add: add_invalid_def hn cong: if_cong)
qed


lemma add_run_root:
  assumes "0 < np" "\<not> add_invalid np"
  shows "add_run np names m0 0 =
         Inr \<lparr>mem = (add_compute_root np
                       (add_scatter np 0 (map int [0..<LENGTH]) (map (\<lambda>i. int LENGTH + int i) [0..<LENGTH])
                          (add_init (m0 0))))
                    \<lparr>hostname := (\<lambda>i. if 0 < i \<and> i \<le> np - 1 then names i else hostname (m0 0) i),
                     localSum := (if np - 1 = 0
                        then localSum (add_compute_root np
                          (add_scatter np 0 (map int [0..<LENGTH]) (map (\<lambda>i. int LENGTH + int i) [0..<LENGTH])
                          (add_init (m0 0))))
                        else write_block (localSum (add_compute_root np
                          (add_scatter np 0 (map int [0..<LENGTH]) (map (\<lambda>i. int LENGTH + int i) [0..<LENGTH])
                          (add_init (m0 0))))) 0
                          (map (\<lambda>i. int LENGTH + 2 * int i)
                             [(np - 1) * (LENGTH div np)..<(np - 1) * (LENGTH div np) + LENGTH div np]))\<rparr>,
              trace = [Print (Distributing 0 (names 0) np),
                       Scatter (LENGTH div np), Scatter (LENGTH div np),
                       Print (LocalData 0 (names 0)
                         (map int [0..<LENGTH div np])
                         (map (\<lambda>i. int LENGTH + int i) [0..<LENGTH div np])
                         (map (\<lambda>i. int LENGTH + 2 * int i) [0..<LENGTH div np]))] @
                      concat (map (\<lambda>i. [Recv i nametag, Recv i datatag,
                                          Print (SumsFrom i (names i)
                                            (map (\<lambda>i. int LENGTH + 2 * int i)
                                               [i * (LENGTH div np)..<i * (LENGTH div np) + LENGTH div np]))])
                                [1..<np]) @
                      [Print Ready, Finalize, Exit 0]\<rparr>"
proof -
  have box: "\<forall>i. 0 < i \<and> i \<le> np - 1 \<longrightarrow>
             add_box np names m0 i nametag = [Name (names i)] \<and>
             add_box np names m0 i datatag =
               [Ints (map (\<lambda>i. int LENGTH + 2 * int i)
                        [i * (LENGTH div np)..<i * (LENGTH div np) + LENGTH div np])] \<and>
             length (map (\<lambda>i. int LENGTH + 2 * int i)
                        [i * (LENGTH div np)..<i * (LENGTH div np) + LENGTH div np]) = LENGTH div np"
    using assms by (auto simp: add_box_valid)
  show ?thesis
    unfolding add_run_def add_main_def
    using add_root_valid [OF assms box, of "names 0" "m0 0"] by simp
qed

lemma printed_append: "printed (xs @ ys) = printed xs @ printed ys"
  by (induction xs rule: printed.induct) simp_all

lemma recvs_append: "recvs (xs @ ys) = recvs xs @ recvs ys"
  by (induction xs rule: recvs.induct) simp_all

lemma filter_comm_append: "filter is_comm (xs @ ys) = filter is_comm xs @ filter is_comm ys"
  by simp

lemma printed_collect:
  "printed (concat (map (\<lambda>i. [Recv i t1, Recv i t2, Print (f i)]) is)) = map f is"
  by (induction "is") simp_all

lemma recvs_collect:
  "recvs (concat (map (\<lambda>i. [Recv i t1, Recv i t2, Print (f i)]) is)) =
     concat (map (\<lambda>i. [(i, t1), (i, t2)]) is)"
  by (induction "is") simp_all

lemma concat_blocks:
  "concat (map (\<lambda>r. map f [r * c..<r * c + c]) [0..<n]) = map f [0..<n * c]"
proof (induction n)
  case 0
  show ?case by simp
next
  case (Suc n)
  have "[0..<n * c + c] = [0..<n * c] @ [n * c..<n * c + c]"
    by (metis le_add1 upt_add_eq_append zero_le)
  then show ?case using Suc by (simp add: add.commute)
qed

lemma concat_blocks_from_1:
  "0 < n \<Longrightarrow> map f [0..<c] @ concat (map (\<lambda>r. map f [r * c..<r * c + c]) [1..<n]) = map f [0..<n * c]"
  using concat_blocks [of f c n] by (simp add: upt_conv_Cons del: upt_Suc)

lemma add_reported_sums:
  assumes "0 < np" "\<not> add_invalid np"
  shows "reported_sums (trace_of (add_run np names m0 0)) = map (\<lambda>i. int LENGTH + 2 * int i) [0..<LENGTH]"
  using concat_blocks_from_1 [OF assms(1), of "\<lambda>i. int LENGTH + 2 * int i" "LENGTH div np"]
  by (simp add: add_run_root [OF assms] trace_of_def reported_sums_def printed_append printed_collect
        o_def add_valid_mult [OF assms(2)])

section \<open>The matrix program: closed forms of its loops and runs\<close>

lemma flt_of_int_small: "\<bar>v\<bar> \<le> 2 ^ 24 \<Longrightarrow> flt_of_int v = Exact v"
  by (simp add: flt_of_int_def)

lemma mm_init_row:
  "fold (\<lambda>j m. m\<lparr>matA := (matA m)(i * N + j := flt_of_int (int i * int N + int j))\<rparr>) [0..<n] m =
   m\<lparr>matA := (\<lambda>k. if i * N \<le> k \<and> k < i * N + n then flt_of_int (int k) else matA m k)\<rparr>"
proof (induction n)
  case 0
  show ?case by (rule mm_mem.equality) (auto simp: fun_eq_iff)
next
  case (Suc n)
  show ?case
    unfolding upt_Suc_append [OF le0] fold_append comp_def Suc
    by (rule mm_mem.equality) (auto simp: fun_eq_iff)
qed

lemma mm_init_rows:
  "fold (\<lambda>i m. m\<lparr>matA := (\<lambda>k. if i * N \<le> k \<and> k < i * N + N then flt_of_int (int k) else matA m k),
                  matX := (matX m)(i := flt_of_int (int i + 1))\<rparr>)
       [0..<n] m =
   m\<lparr>matA := (\<lambda>k. if k < n * N then flt_of_int (int k) else matA m k),
     matX := (\<lambda>i. if i < n then flt_of_int (int i + 1) else matX m i)\<rparr>"
proof (induction n)
  case 0
  show ?case by (rule mm_mem.equality) (auto simp: fun_eq_iff)
next
  case (Suc n)
  show ?case
    unfolding upt_Suc_append [OF le0] fold_append comp_def Suc
    by (rule mm_mem.equality) (auto simp: fun_eq_iff)
qed

lemma mm_init_eq:
  "mm_init m =
   m\<lparr>matA := (\<lambda>k. if k < N * N then Exact (int k) else matA m k),
     matX := (\<lambda>i. if i < N then Exact (int i + 1) else matX m i)\<rparr>"
proof -
  have "mm_init m =
      fold (\<lambda>i m. m\<lparr>matA := (\<lambda>k. if i * N \<le> k \<and> k < i * N + N then flt_of_int (int k) else matA m k),
                  matX := (matX m)(i := flt_of_int (int i + 1))\<rparr>) [0..<N] m"
    unfolding mm_init_def Let_def mm_init_row by simp
  also have "\<dots> = m\<lparr>matA := (\<lambda>k. if k < N * N then Exact (int k) else matA m k),
     matX := (\<lambda>i. if i < N then Exact (int i + 1) else matX m i)\<rparr>"
    unfolding mm_init_rows
    by (rule mm_mem.equality) (auto simp: fun_eq_iff N_def flt_of_int_def)
  finally show ?thesis .
qed

lemma mm_dot_loop:
  "fold (\<lambda>j m. m\<lparr>localResult := (localResult m)
            (i := fadd (localResult m i) (fmul (mm_localA m (i * N + j)) (matX m j)))\<rparr>) [0..<n] m =
   m\<lparr>localResult := (localResult m)
        (i := fold (\<lambda>j acc. fadd acc (fmul (mm_localA m (i * N + j)) (matX m j))) [0..<n]
                (localResult m i))\<rparr>"
proof (induction n)
  case 0
  show ?case by (rule mm_mem.equality) (auto simp: fun_eq_iff)
next
  case (Suc n)
  show ?case
    unfolding upt_Suc_append [OF le0] fold_append comp_def Suc
    by (rule mm_mem.equality) (auto simp: fun_eq_iff)
qed

lemma mm_compute_loop:
  assumes "n \<le> cap_localResult"
  shows "forE [0..<n] (\<lambda>i m.
       if i < cap_localResult then
         Inr (fold (\<lambda>j m. m\<lparr>localResult := (localResult m)
                      (i := fadd (localResult m i) (fmul (mm_localA m (i * N + j)) (matX m j)))\<rparr>)
                [0..<N] (m\<lparr>localResult := (localResult m)(i := Exact 0)\<rparr>))
       else Inl OutOfBounds) m =
     Inr (m\<lparr>localResult := (\<lambda>i. if i < n
            then fold (\<lambda>j acc. fadd acc (fmul (mm_localA m (i * N + j)) (matX m j))) [0..<N] (Exact 0)
            else localResult m i)\<rparr>)"
  using assms
proof (induction n)
  case 0
  have "m = m\<lparr>localResult := (\<lambda>i. if i < 0
            then fold (\<lambda>j acc. fadd acc (fmul (mm_localA m (i * N + j)) (matX m j))) [0..<N] (Exact 0)
            else localResult m i)\<rparr>"
    by (rule mm_mem.equality) (auto simp: fun_eq_iff)
  then show ?case by simp
next
  case (Suc n)
  have ih: "forE [0..<n] (\<lambda>i m.
       if i < cap_localResult then
         Inr (fold (\<lambda>j m. m\<lparr>localResult := (localResult m)
                      (i := fadd (localResult m i) (fmul (mm_localA m (i * N + j)) (matX m j)))\<rparr>)
                [0..<N] (m\<lparr>localResult := (localResult m)(i := Exact 0)\<rparr>))
       else Inl OutOfBounds) m =
     Inr (m\<lparr>localResult := (\<lambda>i. if i < n
            then fold (\<lambda>j acc. fadd acc (fmul (mm_localA m (i * N + j)) (matX m j))) [0..<N] (Exact 0)
            else localResult m i)\<rparr>)"
    using Suc by simp
  have n: "n < cap_localResult" using Suc.prems by simp
  show ?case
    unfolding upt_Suc_append [OF le0] forE_append ih
    apply (simp add: n mm_dot_loop)
    apply (rule mm_mem.equality)
    apply (auto simp: fun_eq_iff)
    done
qed

lemma forE_guard_ok:
  "k \<le> c \<Longrightarrow> \<exists>m'. forE [0..<k] (\<lambda>i m. if i < c then Inr (f i m) else Inl OutOfBounds) m = Inr m'"
proof (induction k)
  case 0
  show ?case by simp
next
  case (Suc k)
  then obtain m' where "forE [0..<k] (\<lambda>i m. if i < c then Inr (f i m) else Inl OutOfBounds) m = Inr m'"
    by auto
  then show ?case
    using Suc.prems unfolding upt_Suc_append [OF le0] forE_append by simp
qed

lemma forE_guard_overflow:
  assumes "c < n"
  shows "forE [0..<n] (\<lambda>i m. if i < c then Inr (f i m) else Inl OutOfBounds) m = Inl OutOfBounds"
proof -
  have split: "[0..<n] = [0..<c] @ c # [Suc c..<n]"
    using assms by (metis le0 less_imp_le_nat upt_add_eq_append upt_conv_Cons le_add_diff_inverse add_0)
  obtain m' where "forE [0..<c] (\<lambda>i m. if i < c then Inr (f i m) else Inl OutOfBounds) m = Inr m'"
    using forE_guard_ok [of c c f m] by auto
  then show ?thesis
    unfolding split forE_append by simp
qed


lemma mm_compute_root_ok:
  assumes "rows_per_proc np \<le> cap_localResult"
  shows "mm_compute_root np m =
     Inr (m\<lparr>localResult := (\<lambda>i. if i < rows_per_proc np then dot_row (mm_localA m) (matX m) i
                                else localResult m i)\<rparr>)"
  unfolding mm_compute_root_def dot_row_def by (rule mm_compute_loop [OF assms])

lemma mm_compute_worker_ok:
  assumes "rows_per_proc np \<le> cap_localResult"
  shows "mm_compute_worker np m =
     Inr (m\<lparr>localResult := (\<lambda>i. if i < rows_per_proc np then dot_row (mm_localA m) (matX m) i
                                else localResult m i)\<rparr>)"
  unfolding mm_compute_worker_def dot_row_def by (rule mm_compute_loop [OF assms])

lemma mm_copy_ok:
  assumes "rows_per_proc np \<le> cap_localResult" "rows_per_proc np \<le> cap_result"
  shows "mm_copy np m =
     Inr (m\<lparr>result := (\<lambda>i. if i < rows_per_proc np then localResult m i else result m i)\<rparr>)"
proof -
  have "n \<le> cap_localResult \<Longrightarrow> n \<le> cap_result \<Longrightarrow>
     forE [0..<n] (\<lambda>i m.
       if i < cap_result \<and> i < cap_localResult then
         Inr (m\<lparr>result := (result m)(i := localResult m i)\<rparr>)
       else Inl OutOfBounds) m =
     Inr (m\<lparr>result := (\<lambda>i. if i < n then localResult m i else result m i)\<rparr>)" for n
  proof (induction n)
    case 0
    have "m = m\<lparr>result := (\<lambda>i. if i < 0 then localResult m i else result m i)\<rparr>"
      by (rule mm_mem.equality) (auto simp: fun_eq_iff)
    then show ?case by simp
  next
    case (Suc n)
    have ih: "forE [0..<n] (\<lambda>i m.
       if i < cap_result \<and> i < cap_localResult then
         Inr (m\<lparr>result := (result m)(i := localResult m i)\<rparr>)
       else Inl OutOfBounds) m =
     Inr (m\<lparr>result := (\<lambda>i. if i < n then localResult m i else result m i)\<rparr>)"
      using Suc by simp
    have n: "n < cap_localResult" "n < cap_result" using Suc.prems by simp_all
    show ?case
      unfolding upt_Suc_append [OF le0] forE_append ih
      apply (simp add: n)
      apply (rule mm_mem.equality)
      apply (auto simp: fun_eq_iff)
      done
  qed
  then show ?thesis using assms by (simp add: mm_copy_def)
qed

lemma block_div:
  fixes c j k :: nat
  assumes "k * c \<le> j" "j < k * c + c"
  shows "j div c = k" and "j mod c = j - k * c"
proof -
  have c: "0 < c" using assms by (cases c) auto
  obtain d where d: "j = k * c + d" "d < c"
    using assms by (metis add_less_cancel_left le_add_diff_inverse)
  show "j div c = k" using d c by simp
  show "j mod c = j - k * c" using d c by simp
qed

lemma mm_collect_step_ok:
  assumes "box i resulttag = [Floats xs]" "length xs = rows_per_proc np"
    and "i * rows_per_proc np + rows_per_proc np \<le> cap_result"
  shows "mm_collect_step np i (p, box) =
           Inr (\<lparr>mem = (mem p)\<lparr>result := write_block (result (mem p)) (i * rows_per_proc np) xs\<rparr>,
                  trace = trace p @ [Recv i resulttag]\<rparr>,
                box(i := (box i)(resulttag := [])))"
  using assms by (simp add: mm_collect_step_def mpi_recv_def)

lemma mm_collect_loop:
  assumes "\<forall>i. 0 < i \<and> i \<le> k \<longrightarrow>
             box i resulttag = [Floats (xs i)] \<and> length (xs i) = rows_per_proc np"
    and "Suc k * rows_per_proc np \<le> cap_result"
  shows "forE [1..<Suc k] (mm_collect_step np) (p, box) =
           Inr (\<lparr>mem = (mem p)\<lparr>result := (\<lambda>j. if rows_per_proc np \<le> j \<and> j < Suc k * rows_per_proc np
                                                then xs (j div rows_per_proc np) ! (j mod rows_per_proc np)
                                                else result (mem p) j)\<rparr>,
                  trace = trace p @ map (\<lambda>i. Recv i resulttag) [1..<Suc k]\<rparr>,
                (\<lambda>src tag. if 0 < src \<and> src \<le> k \<and> tag = resulttag then [] else box src tag))"
  using assms
proof (induction k)
  case 0
  have "(\<lambda>j. if rows_per_proc np \<le> j \<and> j < Suc 0 * rows_per_proc np
                                                then xs (j div rows_per_proc np) ! (j mod rows_per_proc np)
                                                else result (mem p) j) = result (mem p)"
    by (auto simp: fun_eq_iff)
  moreover have "(\<lambda>src tag. if 0 < src \<and> src \<le> 0 \<and> tag = resulttag then [] else box src tag) = box"
    by (auto simp: fun_eq_iff)
  ultimately show ?case by simp
next
  case (Suc k)
  let ?c = "rows_per_proc np"
  let ?box = "\<lambda>src tag. if 0 < src \<and> src \<le> k \<and> tag = resulttag then [] else box src tag"
  have len: "length (xs (Suc k)) = ?c"
    and bn: "?box (Suc k) resulttag = [Floats (xs (Suc k))]"
    using Suc.prems by simp_all
  have cap: "Suc k * ?c + ?c \<le> cap_result" "Suc k * ?c \<le> cap_result"
    using Suc.prems(2) by simp_all
  have split: "[1..<Suc (Suc k)] = [1..<Suc k] @ [Suc k]"
    by simp
  have res: "write_block (\<lambda>j. if ?c \<le> j \<and> j < Suc k * ?c then xs (j div ?c) ! (j mod ?c) else R j)
               (Suc k * ?c) (xs (Suc k)) =
             (\<lambda>j. if ?c \<le> j \<and> j < Suc (Suc k) * ?c then xs (j div ?c) ! (j mod ?c) else R j)" for R
  proof (rule ext)
    fix j
    show "write_block (\<lambda>j. if ?c \<le> j \<and> j < Suc k * ?c then xs (j div ?c) ! (j mod ?c) else R j)
               (Suc k * ?c) (xs (Suc k)) j =
          (if ?c \<le> j \<and> j < Suc (Suc k) * ?c then xs (j div ?c) ! (j mod ?c) else R j)"
    proof (cases "Suc k * ?c \<le> j \<and> j < Suc k * ?c + ?c")
      case True
      then have "j div ?c = Suc k" "j mod ?c = j - Suc k * ?c"
        using block_div [of "Suc k" ?c j] by simp_all
      then show ?thesis using True by (simp add: write_block_def len)
    next
      case False
      then show ?thesis by (auto simp: write_block_def len)
    qed
  qed
  have bx: "?box(Suc k := (box (Suc k))(resulttag := [])) =
            (\<lambda>src tag. if 0 < src \<and> src \<le> Suc k \<and> tag = resulttag then [] else box src tag)"
    by (auto simp: fun_eq_iff)
  have ih: "forE [1..<Suc k] (mm_collect_step np) (p, box) =
           Inr (\<lparr>mem = (mem p)\<lparr>result := (\<lambda>j. if ?c \<le> j \<and> j < Suc k * ?c
                                                then xs (j div ?c) ! (j mod ?c)
                                                else result (mem p) j)\<rparr>,
                  trace = trace p @ map (\<lambda>i. Recv i resulttag) [1..<Suc k]\<rparr>, ?box)"
    using Suc.IH Suc.prems cap by simp
  show ?case
    unfolding split forE_append ih
    by (simp add: mm_collect_step_ok [of ?box "Suc k" "xs (Suc k)" np, OF bn len cap(1)]
          res bx del: upt_Suc mult_Suc)
qed


lemma dot_fold_bounds:
  assumes "\<forall>j<n. fa j = Exact (a j) \<and> fx j = Exact (x j) \<and> 0 \<le> a j * x j \<and> a j * x j \<le> M"
    and "int n * M \<le> 2 ^ 24"
  shows "fold (\<lambda>j acc. fadd acc (fmul (fa j) (fx j))) [0..<n] (Exact 0) = Exact (\<Sum>j<n. a j * x j) \<and>
         0 \<le> (\<Sum>j<n. a j * x j) \<and> (\<Sum>j<n. a j * x j) \<le> int n * M"
  using assms
proof (induction n)
  case 0
  show ?case by simp
next
  case (Suc n)
  have pre: "\<forall>j<n. fa j = Exact (a j) \<and> fx j = Exact (x j) \<and> 0 \<le> a j * x j \<and> a j * x j \<le> M"
    and last: "fa n = Exact (a n)" "fx n = Exact (x n)" "0 \<le> a n * x n" "a n * x n \<le> M"
    and bound: "int (Suc n) * M \<le> 2 ^ 24"
    using Suc.prems by simp_all
  have M: "0 \<le> M" using last by simp
  have nM: "0 \<le> int n * M" using M by simp
  have bound': "int n * M \<le> 2 ^ 24"
    using bound M by (simp add: distrib_right)
  have ih: "fold (\<lambda>j acc. fadd acc (fmul (fa j) (fx j))) [0..<n] (Exact 0) = Exact (\<Sum>j<n. a j * x j)"
    "0 \<le> (\<Sum>j<n. a j * x j)" "(\<Sum>j<n. a j * x j) \<le> int n * M"
    using Suc.IH [OF pre bound'] by simp_all
  have le: "(\<Sum>j<n. a j * x j) + a n * x n \<le> int (Suc n) * M"
    using ih(3) last(4) by (simp add: distrib_right)
  have ge: "0 \<le> (\<Sum>j<n. a j * x j) + a n * x n"
    using ih(2) last(3) by simp
  have bound2: "M + int n * M \<le> 2 ^ 24"
    using bound by (simp add: distrib_right)
  have "\<bar>a n * x n\<bar> \<le> 2 ^ 24"
    using last(3,4) bound2 nM by linarith
  then have p: "fmul (fa n) (fx n) = Exact (a n * x n)"
    using last(1,2) by (simp add: flt_of_int_def)
  have "\<bar>(\<Sum>j<n. a j * x j) + a n * x n\<bar> \<le> 2 ^ 24"
    using le ge bound by linarith
  then have "fold (\<lambda>j acc. fadd acc (fmul (fa j) (fx j))) [0..<Suc n] (Exact 0) =
             Exact ((\<Sum>j<n. a j * x j) + a n * x n)"
    unfolding upt_Suc_append [OF le0] fold_append comp_def ih(1)
    by (simp add: p flt_of_int_def)
  then show ?case using le ge by simp
qed

lemma mm_worker_ok:
  assumes "rows_per_proc np \<le> cap_localResult"
  shows "mm_worker np r name srcA srcX m =
     Inr \<lparr>mem = m\<lparr>mm_localA := write_block (mm_localA m) 0 (mpi_scatter srcA (rows_per_proc np * N) r),
                   matX := write_block (matX m) 0 (take N srcX),
                   localResult := (\<lambda>i. if i < rows_per_proc np
                      then dot_row (write_block (mm_localA m) 0 (mpi_scatter srcA (rows_per_proc np * N) r))
                             (write_block (matX m) 0 (take N srcX)) i
                      else localResult m i)\<rparr>,
          trace = [Scatter (rows_per_proc np * N), Bcast N,
                   Print (Computed r name (map (dot_row
                      (write_block (mm_localA m) 0 (mpi_scatter srcA (rows_per_proc np * N) r))
                      (write_block (matX m) 0 (take N srcX))) [0..<rows_per_proc np])),
                   Send 0 resulttag (Floats (map (dot_row
                      (write_block (mm_localA m) 0 (mpi_scatter srcA (rows_per_proc np * N) r))
                      (write_block (matX m) 0 (take N srcX))) [0..<rows_per_proc np])),
                   Finalize, Exit 0]\<rparr>"
proof -
  have cap: "rows_per_proc np * N \<le> cap_localA"
    using assms by (simp add: cap_localA_def cap_localResult_def)
  have rb: "read_block (\<lambda>i. if i < n then f i else g i) 0 n = map f [0..<n]" for n f and g :: "flt buf"
    by (simp add: read_block_def)
  show ?thesis
    by (simp add: mm_worker_def mm_scatter_def cap Let_def mm_compute_worker_ok [OF assms] rb
          cong: if_cong)
qed


lemma rows_cap: "4 \<le> np \<Longrightarrow> rows_per_proc np \<le> cap_localResult"
proof -
  assume "4 \<le> np"
  then have "N div np \<le> N div 4"
    by (intro div_le_mono2) simp_all
  then show ?thesis by (simp add: rows_per_proc_def cap_localResult_def)
qed

lemma rows_total: "np * rows_per_proc np \<le> N"
  by (simp add: rows_per_proc_def)

lemma rows_block:
  assumes "i < np"
  shows "i * rows_per_proc np + rows_per_proc np \<le> N"
proof -
  have "Suc i * rows_per_proc np \<le> np * rows_per_proc np"
    using assms by (intro mult_le_mono1) simp
  then show ?thesis using rows_total [of np] by simp
qed

lemma mm_srcA_eq:
  "mm_srcA np m0 = map (\<lambda>k. Exact (int k)) [0..<np * (rows_per_proc np * N)]"
proof -
  have "np * (rows_per_proc np * N) \<le> N * N"
    using rows_total [of np] by (metis mult.assoc mult_le_mono1)
  then show ?thesis
    by (simp add: mm_srcA_def mm_init_eq read_block_fill)
qed

lemma mm_srcX_eq: "mm_srcX m0 = map (\<lambda>i. Exact (int i + 1)) [0..<N]"
  by (simp add: mm_srcX_def mm_init_eq read_block_fill)

lemma mm_local_cell:
  assumes "i < np" "l < rows_per_proc np" "j < N"
  shows "write_block b 0 (mpi_scatter (mm_srcA np m0) (rows_per_proc np * N) i) (l * N + j) =
         Exact (int ((i * rows_per_proc np + l) * N + j))"
proof -
  let ?c = "rows_per_proc np * N"
  have "Suc i * ?c \<le> np * ?c"
    using assms(1) by (intro mult_le_mono1) simp
  then have blk: "i * ?c + ?c \<le> np * ?c" by simp
  have "Suc l * N \<le> rows_per_proc np * N"
    using assms(2) by (intro mult_le_mono1) simp
  then have lt: "l * N + j < ?c" using assms(3) by simp
  have sc: "mpi_scatter (mm_srcA np m0) ?c i = map (\<lambda>k. Exact (int k)) [i * ?c..<i * ?c + ?c]"
    unfolding mm_srcA_eq by (rule mpi_scatter_map [OF blk])
  have idx: "i * ?c + (l * N + j) = (i * rows_per_proc np + l) * N + j"
    by (simp add: algebra_simps)
  have "write_block b 0 (mpi_scatter (mm_srcA np m0) ?c i) (l * N + j) =
        Exact (int (i * ?c + (l * N + j)))"
    unfolding sc using lt by (simp add: write_block_def)
  then show ?thesis unfolding idx .
qed

lemma mm_x_cell:
  assumes "j < N"
  shows "write_block b 0 (take N (mm_srcX m0)) j = Exact (int j + 1)"
  using assms by (simp add: mm_srcX_eq write_block_def)

lemma mm_dot_row_value:
  assumes "q < N"
    and "\<forall>j<N. a (l * N + j) = Exact (int (q * N + j))"
    and "\<forall>j<N. x j = Exact (int j + 1)"
  shows "dot_row a x l = Exact (\<Sum>j<N. int (q * N + j) * (int j + 1))"
proof -
  have "\<forall>j<N. a (l * N + j) = Exact (int (q * N + j)) \<and> x j = Exact (int j + 1) \<and>
          0 \<le> int (q * N + j) * (int j + 1) \<and> int (q * N + j) * (int j + 1) \<le> 4080"
  proof (intro allI impI)
    fix j assume j: "j < N"
    have "q * N + j \<le> 255" "j + 1 \<le> 16" using assms(1) j by (simp_all add: N_def)
    then have "(q * N + j) * (j + 1) \<le> 255 * 16"
      by (rule mult_le_mono)
    then have "int ((q * N + j) * (j + 1)) \<le> int (255 * 16)"
      by (simp only: of_nat_le_iff)
    moreover have "int ((q * N + j) * (j + 1)) = int (q * N + j) * (int j + 1)"
      by (simp add: algebra_simps)
    ultimately have "int (q * N + j) * (int j + 1) \<le> 4080"
      by simp
    then show "a (l * N + j) = Exact (int (q * N + j)) \<and> x j = Exact (int j + 1) \<and>
          0 \<le> int (q * N + j) * (int j + 1) \<and> int (q * N + j) * (int j + 1) \<le> 4080"
      using assms(2,3) j by simp
  qed
  moreover have "int N * 4080 \<le> 2 ^ 24" by (simp add: N_def)
  ultimately show ?thesis
    unfolding dot_row_def
    using dot_fold_bounds [of N "\<lambda>j. a (l * N + j)" "\<lambda>j. int (q * N + j)" x "\<lambda>j. int j + 1" 4080]
    by simp
qed

lemma mm_worker_row:
  assumes "i < np" "l < rows_per_proc np"
  shows "dot_row (write_block b 0 (mpi_scatter (mm_srcA np m0) (rows_per_proc np * N) i))
           (write_block c 0 (take N (mm_srcX m0))) l =
         Exact (\<Sum>j<N. int ((i * rows_per_proc np + l) * N + j) * (int j + 1))"
proof -
  have "i * rows_per_proc np + l < N"
    using rows_block [OF assms(1)] assms(2) by simp
  then show ?thesis
    by (intro mm_dot_row_value) (simp_all add: mm_local_cell [OF assms] mm_x_cell)
qed


lemma mm_run_worker:
  assumes "0 < i" "i < np" "4 \<le> np"
  shows "\<exists>w. mm_run np names m0 i =
     Inr \<lparr>mem = w,
          trace = [Scatter (rows_per_proc np * N), Bcast N,
                   Print (Computed i (names i)
                     (map (\<lambda>l. Exact (\<Sum>j<N. int ((i * rows_per_proc np + l) * N + j) * (int j + 1)))
                        [0..<rows_per_proc np])),
                   Send 0 resulttag (Floats
                     (map (\<lambda>l. Exact (\<Sum>j<N. int ((i * rows_per_proc np + l) * N + j) * (int j + 1)))
                        [0..<rows_per_proc np])),
                   Finalize, Exit 0]\<rparr>"
proof -
  have vals: "map (dot_row (write_block b 0 (mpi_scatter (mm_srcA np m0) (rows_per_proc np * N) i))
                     (write_block c 0 (take N (mm_srcX m0)))) [0..<rows_per_proc np] =
              map (\<lambda>l. Exact (\<Sum>j<N. int ((i * rows_per_proc np + l) * N + j) * (int j + 1)))
                [0..<rows_per_proc np]" for b c
    by (rule map_cong) (simp_all add: mm_worker_row [OF assms(2)])
  show ?thesis
    using assms(1)
    by (simp add: mm_run_def mm_main_def mm_worker_ok [OF rows_cap [OF assms(3)]] vals)
qed

lemma mm_box_valid:
  assumes "0 < i" "i < np" "4 \<le> np"
  shows "mm_box np names m0 i resulttag =
           [Floats (map (\<lambda>l. Exact (\<Sum>j<N. int ((i * rows_per_proc np + l) * N + j) * (int j + 1)))
                      [0..<rows_per_proc np])]"
proof -
  have vals: "map (dot_row (write_block b 0 (mpi_scatter (mm_srcA np m0) (rows_per_proc np * N) i))
                     (write_block c 0 (take N (mm_srcX m0)))) [0..<rows_per_proc np] =
              map (\<lambda>l. Exact (\<Sum>j<N. int ((i * rows_per_proc np + l) * N + j) * (int j + 1)))
                [0..<rows_per_proc np]" for b c
    by (rule map_cong) (simp_all add: mm_worker_row [OF assms(2)])
  show ?thesis
    using assms(1,2)
    by (simp add: mm_box_def mm_main_def mm_worker_ok [OF rows_cap [OF assms(3)]] vals trace_of_def)
qed

lemma mm_root_ok:
  assumes "4 \<le> np"
    and "\<forall>i. 0 < i \<and> i \<le> np - 1 \<longrightarrow>
             box i resulttag = [Floats (xs i)] \<and> length (xs i) = rows_per_proc np"
  shows "\<exists>p. mm_root np name box m = Inr p \<and>
           result (mem p) =
             (\<lambda>j. if rows_per_proc np \<le> j \<and> j < np * rows_per_proc np
                  then xs (j div rows_per_proc np) ! (j mod rows_per_proc np)
                  else if j < rows_per_proc np
                  then dot_row (write_block (mm_localA m) 0
                          (mpi_scatter (read_block (matA (mm_init m)) 0 (np * (rows_per_proc np * N)))
                             (rows_per_proc np * N) 0))
                         (matX (mm_init m)) j
                  else result m j) \<and>
           localResult (mem p) =
             (\<lambda>i. if i < rows_per_proc np
                  then dot_row (write_block (mm_localA m) 0
                          (mpi_scatter (read_block (matA (mm_init m)) 0 (np * (rows_per_proc np * N)))
                             (rows_per_proc np * N) 0))
                         (matX (mm_init m)) i
                  else localResult m i) \<and>
           trace p =
             [Print (NumProcs np),
              Print (MatrixA (read_block (matA (mm_init m)) 0 (N * N))),
              Print (VectorX (read_block (matX (mm_init m)) 0 N)),
              Scatter (rows_per_proc np * N), Bcast N] @
             map (\<lambda>i. Recv i resulttag) [1..<np] @
             [Print (ResultVec (read_block (result (mem p)) 0 N)), Finalize, Exit 0]"
proof -
  let ?c = "rows_per_proc np"
  have np: "0 < np" using assms(1) by simp
  have capR: "?c \<le> cap_localResult" by (rule rows_cap [OF assms(1)])
  have capA: "?c * N \<le> cap_localA"
    using capR by (simp add: cap_localA_def cap_localResult_def)
  have capM: "\<not> cap_matA < np * (?c * N)"
    using rows_total [of np] by (simp add: cap_matA_def not_less)
  have capS: "?c \<le> cap_result"
    using capR by (simp add: cap_result_def cap_localResult_def N_def)
  have capT: "Suc (np - 1) * ?c \<le> cap_result"
    using rows_total [of np] np by (simp add: cap_result_def)
  have frame: "mm_localA (mm_init m) = mm_localA m" "result (mm_init m) = result m"
    "localResult (mm_init m) = localResult m"
    by (simp_all add: mm_init_eq)
  have loop: "forE [Suc 0..<np] (mm_collect_step np) (p, box) =
           Inr (\<lparr>mem = (mem p)\<lparr>result := (\<lambda>j. if ?c \<le> j \<and> j < np * ?c
                                                then xs (j div ?c) ! (j mod ?c)
                                                else result (mem p) j)\<rparr>,
                  trace = trace p @ map (\<lambda>i. Recv i resulttag) [1..<np]\<rparr>,
                (\<lambda>src tag. if 0 < src \<and> src \<le> np - 1 \<and> tag = resulttag then [] else box src tag))" for p
    using mm_collect_loop [where k = "np - 1" and box = box and xs = xs and np = np and p = p,
            OF assms(2) capT] np by simp
  show ?thesis
    unfolding mm_root_def Let_def
    by (simp add: capM mm_scatter_def capA mm_compute_root_ok [OF capR] mm_copy_ok [OF capR capS] loop
          frame fun_eq_iff cong: if_cong)
qed


lemma mm_run_root:
  assumes "4 \<le> np"
  shows "\<exists>p. mm_run np names m0 0 = Inr p \<and>
           (\<forall>q. result (mem p) q =
                  (if q < np * rows_per_proc np then Exact (\<Sum>j<N. int (q * N + j) * (int j + 1))
                   else result (m0 0) q)) \<and>
           (\<forall>q<rows_per_proc np. localResult (mem p) q = Exact (\<Sum>j<N. int (q * N + j) * (int j + 1))) \<and>
           trace p =
             [Print (NumProcs np),
              Print (MatrixA (map (\<lambda>k. Exact (int k)) [0..<N * N])),
              Print (VectorX (map (\<lambda>i. Exact (int i + 1)) [0..<N])),
              Scatter (rows_per_proc np * N), Bcast N] @
             map (\<lambda>i. Recv i resulttag) [1..<np] @
             [Print (ResultVec (read_block (result (mem p)) 0 N)), Finalize, Exit 0]"
proof -
  let ?c = "rows_per_proc np"
  let ?row = "\<lambda>q. Exact (\<Sum>j<N. int (q * N + j) * (int j + 1))"
  let ?xs = "\<lambda>i. map (\<lambda>l. ?row (i * ?c + l)) [0..<?c]"
  have np: "0 < np" using assms by simp
  have box: "\<forall>i. 0 < i \<and> i \<le> np - 1 \<longrightarrow>
             mm_box np names m0 i resulttag = [Floats (?xs i)] \<and> length (?xs i) = ?c"
    using assms by (auto simp: mm_box_valid)
  obtain p where p: "mm_root np (names 0) (mm_box np names m0) (m0 0) = Inr p"
    and res: "result (mem p) =
             (\<lambda>j. if ?c \<le> j \<and> j < np * ?c then ?xs (j div ?c) ! (j mod ?c)
                  else if j < ?c
                  then dot_row (write_block (mm_localA (m0 0)) 0
                          (mpi_scatter (read_block (matA (mm_init (m0 0))) 0 (np * (?c * N))) (?c * N) 0))
                         (matX (mm_init (m0 0))) j
                  else result (m0 0) j)"
    and lres: "localResult (mem p) =
             (\<lambda>i. if i < ?c
                  then dot_row (write_block (mm_localA (m0 0)) 0
                          (mpi_scatter (read_block (matA (mm_init (m0 0))) 0 (np * (?c * N))) (?c * N) 0))
                         (matX (mm_init (m0 0))) i
                  else localResult (m0 0) i)"
    and tr: "trace p =
             [Print (NumProcs np),
              Print (MatrixA (read_block (matA (mm_init (m0 0))) 0 (N * N))),
              Print (VectorX (read_block (matX (mm_init (m0 0))) 0 N)),
              Scatter (?c * N), Bcast N] @
             map (\<lambda>i. Recv i resulttag) [1..<np] @
             [Print (ResultVec (read_block (result (mem p)) 0 N)), Finalize, Exit 0]"
    using mm_root_ok [where np = np and box = "mm_box np names m0" and xs = ?xs
            and name = "names 0" and m = "m0 0", OF assms box] by blast
  have own: "dot_row (write_block (mm_localA (m0 0)) 0
                          (mpi_scatter (read_block (matA (mm_init (m0 0))) 0 (np * (?c * N))) (?c * N) 0))
                         (matX (mm_init (m0 0))) q = ?row q" if "q < ?c" for q
  proof -
    have "q < N" using rows_block [OF np] that by simp
    moreover have "\<forall>j<N. write_block (mm_localA (m0 0)) 0
                          (mpi_scatter (read_block (matA (mm_init (m0 0))) 0 (np * (?c * N))) (?c * N) 0)
                          (q * N + j) = Exact (int (q * N + j))"
      using mm_local_cell [OF np that, of _ "mm_localA (m0 0)" m0] by (simp add: mm_srcA_def)
    moreover have "\<forall>j<N. matX (mm_init (m0 0)) j = Exact (int j + 1)"
      by (simp add: mm_init_eq)
    ultimately show ?thesis by (rule mm_dot_row_value)
  qed
  have got: "?xs (q div ?c) ! (q mod ?c) = ?row q" if "?c \<le> q" "q < np * ?c" for q
  proof -
    have c: "0 < ?c" using that by (cases "?c") auto
    then have lt: "q mod ?c < ?c" by simp
    have "?xs (q div ?c) ! (q mod ?c) = ?row (q div ?c * ?c + q mod ?c)"
      using lt by (simp del: of_nat_add of_nat_mult div_mult_mod_eq)
    then show ?thesis by (simp only: div_mult_mod_eq)
  qed
  have "\<forall>q. result (mem p) q =
                  (if q < np * ?c then ?row q else result (m0 0) q)"
  proof
    fix q
    have "1 * ?c \<le> np * ?c" using np by (intro mult_le_mono1) simp
    then have lt: "q < ?c \<Longrightarrow> q < np * ?c" by (simp only: mult_1)
    show "result (mem p) q = (if q < np * ?c then ?row q else result (m0 0) q)"
    proof (cases "q < ?c")
      case True
      then show ?thesis unfolding res using own [of q] lt by simp
    next
      case False
      then show ?thesis unfolding res using got [of q] by simp
    qed
  qed
  moreover have "\<forall>q<?c. localResult (mem p) q = ?row q"
    unfolding lres using own by simp
  moreover have "read_block (matA (mm_init (m0 0))) 0 (N * N) = map (\<lambda>k. Exact (int k)) [0..<N * N]"
    by (simp add: mm_init_eq read_block_fill)
  moreover have "read_block (matX (mm_init (m0 0))) 0 N = map (\<lambda>i. Exact (int i + 1)) [0..<N]"
    by (simp add: mm_init_eq read_block_fill)
  ultimately show ?thesis
    using p tr by (simp add: mm_run_def mm_main_def)
qed

section \<open>The claims\<close>

subsection \<open>C1: the configuration check\<close>

lemma add_main_invalid:
  assumes "add_invalid np"
  shows "add_main np me name srcA srcB box m =
           Inr \<lparr>mem = (if me = 0 then add_init m else m),
                trace = (if me = 0 then [Print (Usage LENGTH MAXPROC), Finalize, Exit 0]
                         else [Finalize, Exit 0])\<rparr>"
  using assms by (simp add: add_main_def add_root_def add_worker_def add_invalid_def Let_def)

lemma exit_status_collect:
  "exit_status (concat (map (\<lambda>i. [Recv i t1, Recv i t2, Print (f i)]) is) @ ys) = exit_status ys"
  by (induction "is") simp_all

lemma exit_status_recvs:
  "exit_status (map (\<lambda>i. Recv i t) is @ ys) = exit_status ys"
  by (induction "is") simp_all

lemma filter_comm_nonempty: "x \<in> set xs \<Longrightarrow> is_comm x \<Longrightarrow> filter is_comm xs \<noteq> []"
  by (induction xs) auto

text \<open>
  C1 (amended). In \<open>matrix_add_v2.c\<close>, when the number of processes exceeds \<open>MAXPROC\<close> or
  does not divide \<open>LENGTH\<close>, every rank ends its run (finalize, exit) without any scatter,
  broadcast, send or receive, whatever the transport would deliver.
\<close>

theorem add_invalid_no_communication:
  assumes "me < np" and "add_invalid np"
  shows "\<exists>p. add_main np me name srcA srcB box m = Inr p \<and>
           filter is_comm (trace p) = [] \<and> last (trace p) = Exit 0"
  using add_main_invalid [OF assms(2), of me name srcA srcB box m] by simp

theorem add_invalid_no_communication_witness:
  "(1::nat) < 5 \<and> add_invalid 5 \<and>
   (\<exists>p. add_main 5 1 (host 1) [] [] (\<lambda>_ _. []) add_mem0 = Inr p \<and>
        filter is_comm (trace p) = [] \<and> last (trace p) = Exit 0)"
proof -
  have h1: "(1::nat) < 5" by simp
  have h2: "add_invalid 5" by (simp add: add_invalid_def MAXPROC_def LENGTH_def)
  show ?thesis
    using h1 h2 add_invalid_no_communication [OF h1 h2, of "host 1" "[]" "[]" "\<lambda>_ _. []" add_mem0]
    by simp
qed

theorem mm_no_validation_counterexample:
  "N mod 5 \<noteq> 0 \<and>
   filter is_comm (trace_of (mm_run 5 host (\<lambda>_. mm_mem0) 1)) \<noteq> [] \<and>
   filter is_comm (trace_of (mm_run 5 host (\<lambda>_. mm_mem0) 0)) \<noteq> []"
proof -
  have np: "(4::nat) \<le> 5" by simp
  obtain w where "mm_run 5 host (\<lambda>_. mm_mem0) 1 =
      Inr \<lparr>mem = w, trace = [Scatter (rows_per_proc 5 * N), Bcast N,
                   Print (Computed 1 (host 1)
                     (map (\<lambda>l. Exact (\<Sum>j<N. int ((1 * rows_per_proc 5 + l) * N + j) * (int j + 1)))
                        [0..<rows_per_proc 5])),
                   Send 0 resulttag (Floats
                     (map (\<lambda>l. Exact (\<Sum>j<N. int ((1 * rows_per_proc 5 + l) * N + j) * (int j + 1)))
                        [0..<rows_per_proc 5])),
                   Finalize, Exit 0]\<rparr>"
    using mm_run_worker [of 1 5 host "\<lambda>_. mm_mem0"] by auto
  then have w: "filter is_comm (trace_of (mm_run 5 host (\<lambda>_. mm_mem0) 1)) \<noteq> []"
    by (simp add: trace_of_def)
  obtain p where "mm_run 5 host (\<lambda>_. mm_mem0) 0 = Inr p"
    and "Scatter (rows_per_proc 5 * N) \<in> set (trace p)"
    using mm_run_root [OF np, of host "\<lambda>_. mm_mem0"] by auto
  then have r: "filter is_comm (trace_of (mm_run 5 host (\<lambda>_. mm_mem0) 0)) \<noteq> []"
    using filter_comm_nonempty [of "Scatter (rows_per_proc 5 * N)" "trace p"]
    by (simp add: trace_of_def)
  show ?thesis using w r by (simp add: N_def)
qed

subsection \<open>C5: exit status and diagnostics\<close>

lemma add_run_invalid:
  assumes "add_invalid np"
  shows "trace_of (add_run np names m0 me) =
           (if me = 0 then [Print (Usage LENGTH MAXPROC), Finalize, Exit 0] else [Finalize, Exit 0])"
  using add_main_invalid [OF assms] by (simp add: add_run_def trace_of_def)

lemma add_run_exit:
  assumes "me < np" "\<not> add_invalid np"
  shows "exit_status (trace_of (add_run np names m0 me)) = Some 0"
proof (cases "me = 0")
  case True
  then show ?thesis
    using assms add_run_root [of np names m0]
    by (simp add: trace_of_def exit_status_collect)
next
  case False
  then show ?thesis
    using assms add_run_worker [of me np names m0]
    by (simp add: trace_of_def)
qed

lemma mm_run_exit:
  assumes "me < np" "4 \<le> np"
  shows "exit_status (trace_of (mm_run np names m0 me)) = Some 0"
proof (cases "me = 0")
  case True
  obtain p where "mm_run np names m0 0 = Inr p"
    and "trace p =
             [Print (NumProcs np),
              Print (MatrixA (map (\<lambda>k. Exact (int k)) [0..<N * N])),
              Print (VectorX (map (\<lambda>i. Exact (int i + 1)) [0..<N])),
              Scatter (rows_per_proc np * N), Bcast N] @
             map (\<lambda>i. Recv i resulttag) [1..<np] @
             [Print (ResultVec (read_block (result (mem p)) 0 N)), Finalize, Exit 0]"
    using mm_run_root [OF assms(2), of names m0] by auto
  then show ?thesis
    using True by (simp add: trace_of_def exit_status_recvs)
next
  case False
  then obtain w tr where "mm_run np names m0 me = Inr \<lparr>mem = w, trace = tr\<rparr>"
    and "exit_status tr = Some 0"
    using assms mm_run_worker [of me np names m0] by auto
  then show ?thesis by (simp add: trace_of_def)
qed

text \<open>
  C5 (amended). Every participant exits with status 0 on normal completion, in both
  programs. In \<open>matrix_add_v2.c\<close> a participant whose configuration check fails exits with
  status 0 as well, and only rank 0 prints the usage diagnostic: the other ranks print
  nothing before they exit.
\<close>

theorem exit_status_zero:
  assumes "me < np"
  shows "exit_status (trace_of (add_run np names m0 me)) = Some 0 \<and>
         (add_invalid np \<longrightarrow>
            printed (trace_of (add_run np names m0 me)) =
              (if me = 0 then [Usage LENGTH MAXPROC] else [])) \<and>
         (4 \<le> np \<longrightarrow> exit_status (trace_of (mm_run np hosts mm0 me)) = Some 0)"
  using assms add_run_exit [of me np names m0] mm_run_exit [of me np hosts mm0]
  by (cases "add_invalid np") (simp_all add: add_run_invalid)

theorem exit_status_zero_witness:
  "(1::nat) < 5 \<and> add_invalid 5 \<and> (4::nat) \<le> 5 \<and>
   exit_status (trace_of (add_run 5 host (\<lambda>_. add_mem0) 1)) = Some 0 \<and>
   printed (trace_of (add_run 5 host (\<lambda>_. add_mem0) 1)) = [] \<and>
   exit_status (trace_of (mm_run 5 host (\<lambda>_. mm_mem0) 1)) = Some 0"
proof -
  have h1: "(1::nat) < 5" by simp
  have h2: "add_invalid 5" by (simp add: add_invalid_def MAXPROC_def LENGTH_def)
  show ?thesis
    using h2 exit_status_zero [OF h1, of host "\<lambda>_. add_mem0" host "\<lambda>_. mm_mem0"]
    by simp
qed

theorem exit_nonzero_counterexample:
  "add_invalid 5 \<and>
   exit_status (trace_of (add_run 5 host (\<lambda>_. add_mem0) 0)) = Some 0 \<and>
   trace_of (add_run 5 host (\<lambda>_. add_mem0) 1) = [Finalize, Exit 0] \<and>
   filter is_usage (printed (trace_of (add_run 5 host (\<lambda>_. add_mem0) 1))) = []"
proof -
  have h2: "add_invalid 5" by (simp add: add_invalid_def MAXPROC_def LENGTH_def)
  show ?thesis
    using h2 by (simp add: add_run_invalid [OF h2])
qed

subsection \<open>C7: the compute loops do not depend on the rank\<close>


lemma dot_row_cong:
  assumes "\<forall>k<(i + 1) * N. a k = a' k" "\<forall>j<N. x j = x' j"
  shows "dot_row a x i = dot_row a' x' i"
proof -
  have "fadd acc (fmul (a (i * N + j)) (x j)) = fadd acc (fmul (a' (i * N + j)) (x' j))"
    if "j \<in> set [0..<N]" for j acc
    using that assms by simp
  then show ?thesis
    unfolding dot_row_def by (intro fold_cong) auto
qed

lemma mm_compute_same: "mm_compute_worker np m = mm_compute_root np m"
  by (simp add: mm_compute_worker_def mm_compute_root_def)

lemma mm_compute_root_overflow:
  assumes "cap_localResult < rows_per_proc np"
  shows "mm_compute_root np m = Inl OutOfBounds"
  unfolding mm_compute_root_def by (rule forE_guard_overflow [OF assms])

lemma mm_compute_worker_overflow:
  assumes "cap_localResult < rows_per_proc np"
  shows "mm_compute_worker np m = Inl OutOfBounds"
  unfolding mm_compute_worker_def by (rule forE_guard_overflow [OF assms])

lemma rows_cap_iff:
  assumes "0 < np"
  shows "rows_per_proc np \<le> cap_localResult \<longleftrightarrow> 4 \<le> np"
proof
  assume "4 \<le> np"
  then show "rows_per_proc np \<le> cap_localResult" by (rule rows_cap)
next
  assume le: "rows_per_proc np \<le> cap_localResult"
  show "4 \<le> np"
  proof (rule ccontr)
    assume "\<not> 4 \<le> np"
    then have "np = 1 \<or> np = 2 \<or> np = 3" using assms by arith
    then show False
      using le by (auto simp: rows_per_proc_def cap_localResult_def N_def)
  qed
qed

lemma scatter_cap_iff:
  "rows_per_proc np * N \<le> cap_localA \<longleftrightarrow> rows_per_proc np \<le> cap_localResult"
  by (simp add: cap_localA_def cap_localResult_def N_def)

lemma gen_dot_loop:
  "fold (\<lambda>j lr. lr(i := add (lr i) (mul (la (i * N + j)) (x j)))) [0..<n] lr =
   lr(i := fold (\<lambda>j acc. add acc (mul (la (i * N + j)) (x j))) [0..<n] (lr i))"
proof (induction n)
  case 0
  show ?case by simp
next
  case (Suc n)
  show ?case
    unfolding upt_Suc_append [OF le0] fold_append comp_def Suc
    by simp
qed

lemma gen_loop_ok:
  assumes "n \<le> cap_localResult"
  shows "forE [0..<n] (\<lambda>i lr.
       if i < cap_localResult then
         Inr (fold (\<lambda>j lr. lr(i := add (lr i) (mul (la (i * N + j)) (x j)))) [0..<N] (lr(i := zero)))
       else Inl OutOfBounds) lr =
     Inr (\<lambda>i. if i < n
            then fold (\<lambda>j acc. add acc (mul (la (i * N + j)) (x j))) [0..<N] zero
            else lr i)"
  using assms
proof (induction n)
  case 0
  show ?case by simp
next
  case (Suc n)
  have ih: "forE [0..<n] (\<lambda>i lr.
       if i < cap_localResult then
         Inr (fold (\<lambda>j lr. lr(i := add (lr i) (mul (la (i * N + j)) (x j)))) [0..<N] (lr(i := zero)))
       else Inl OutOfBounds) lr =
     Inr (\<lambda>i. if i < n
            then fold (\<lambda>j acc. add acc (mul (la (i * N + j)) (x j))) [0..<N] zero
            else lr i)"
    using Suc by simp
  have n: "n < cap_localResult" using Suc.prems by simp
  show ?case
    unfolding upt_Suc_append [OF le0] forE_append ih
    by (auto simp: n gen_dot_loop fun_eq_iff)
qed

lemma mm_loop_root_ok:
  assumes "rows_per_proc np \<le> cap_localResult"
  shows "mm_loop_root add mul zero np la x lr =
     Inr (\<lambda>i. if i < rows_per_proc np
            then fold (\<lambda>j acc. add acc (mul (la (i * N + j)) (x j))) [0..<N] zero
            else lr i)"
  unfolding mm_loop_root_def by (rule gen_loop_ok [OF assms])

lemma mm_loop_worker_ok:
  assumes "rows_per_proc np \<le> cap_localResult"
  shows "mm_loop_worker add mul zero np la x lr =
     Inr (\<lambda>i. if i < rows_per_proc np
            then fold (\<lambda>j acc. add acc (mul (la (i * N + j)) (x j))) [0..<N] zero
            else lr i)"
  unfolding mm_loop_worker_def by (rule gen_loop_ok [OF assms])

lemma mm_loop_root_overflow:
  assumes "cap_localResult < rows_per_proc np"
  shows "mm_loop_root add mul zero np la x lr = Inl OutOfBounds"
  unfolding mm_loop_root_def by (rule forE_guard_overflow [OF assms])

lemma mm_loop_worker_overflow:
  assumes "cap_localResult < rows_per_proc np"
  shows "mm_loop_worker add mul zero np la x lr = Inl OutOfBounds"
  unfolding mm_loop_worker_def by (rule forE_guard_overflow [OF assms])





lemma gen_add_loop:
  "fold (\<lambda>i ls. ls(i := pl (la i) (lb i))) [0..<n] ls =
     (\<lambda>j. if j < n then pl (la j) (lb j) else ls j)"
  by (induction n) (auto simp: fun_eq_iff)

lemma add_loop_root_eq:
  "add_loop_root pl np la lb ls = (\<lambda>j. if j < LENGTH div np then pl (la j) (lb j) else ls j)"
  by (simp add: add_loop_root_def gen_add_loop)

lemma add_loop_worker_eq:
  "add_loop_worker pl np la lb ls = (\<lambda>j. if j < LENGTH div np then pl (la j) (lb j) else ls j)"
  by (simp add: add_loop_worker_def gen_add_loop)








subsection \<open>C8: shape of the local result\<close>

lemma read_block_map2:
  "map2 f (read_block a 0 n) (read_block b 0 n) = map (\<lambda>j. f (a j) (b j)) [0..<n]"
  by (rule nth_equalityI) (simp_all add: read_block_def)

text \<open>
  C8. Each compute loop writes exactly one result for each element of its partition: in
  the addition program the first \<open>LENGTH/np\<close> cells of \<open>localSum\<close> become the elementwise sums
  of the \<open>LENGTH/np\<close> cells of the partition, and no other cell changes; in the matrix
  program an invocation that completes leaves in the first \<open>N/np\<close> cells of \<open>localResult\<close>
  one scalar for each of the \<open>N/np\<close> rows of the partition, and changes no other cell. With
  at least four processes the matrix invocation does complete; with one, two or three
  processes it does not: the loop runs past the \<open>N/4\<close> cells of \<open>localResult\<close>. The same holds
  of the loops over any arithmetic of the cells.
\<close>

theorem compute_preserves_shape:
  "read_block (localSum (add_compute_root np m)) 0 (LENGTH div np) =
     map2 (+) (read_block (localA m) 0 (LENGTH div np)) (read_block (localB m) 0 (LENGTH div np)) \<and>
   read_block (localSum (add_compute_worker np m)) 0 (LENGTH div np) =
     map2 (+) (read_block (localA m) 0 (LENGTH div np)) (read_block (localB m) 0 (LENGTH div np)) \<and>
   length (read_block (localSum (add_compute_worker np m)) 0 (LENGTH div np)) =
     length (read_block (localA m) 0 (LENGTH div np)) \<and>
   (\<forall>j. LENGTH div np \<le> j \<longrightarrow>
      localSum (add_compute_root np m) j = localSum m j \<and>
      localSum (add_compute_worker np m) j = localSum m j) \<and>
   (\<forall>w'. mm_compute_root np w = Inr w' \<or> mm_compute_worker np w = Inr w' \<longrightarrow>
      read_block (localResult w') 0 (rows_per_proc np) =
        map (dot_row (mm_localA w) (matX w)) [0..<rows_per_proc np] \<and>
      length (read_block (localResult w') 0 (rows_per_proc np)) = rows_per_proc np \<and>
      (\<forall>i. rows_per_proc np \<le> i \<longrightarrow> localResult w' i = localResult w i)) \<and>
   (4 \<le> np \<longrightarrow> (\<exists>w'. mm_compute_root np w = Inr w') \<and> (\<exists>w'. mm_compute_worker np w = Inr w')) \<and>
   (0 < np \<and> np < 4 \<longrightarrow>
      mm_compute_root np w = Inl OutOfBounds \<and> mm_compute_worker np w = Inl OutOfBounds) \<and>
   read_block (add_loop_root pl np la lb ls) 0 (LENGTH div np) =
     map2 pl (read_block la 0 (LENGTH div np)) (read_block lb 0 (LENGTH div np)) \<and>
   read_block (add_loop_worker pl np la lb ls) 0 (LENGTH div np) =
     map2 pl (read_block la 0 (LENGTH div np)) (read_block lb 0 (LENGTH div np)) \<and>
   (\<forall>j. LENGTH div np \<le> j \<longrightarrow>
      add_loop_root pl np la lb ls j = ls j \<and> add_loop_worker pl np la lb ls j = ls j) \<and>
   (4 \<le> np \<longrightarrow>
      (\<exists>r. mm_loop_root add mul zero np a x lr = Inr r \<and>
           mm_loop_worker add mul zero np a x lr = Inr r \<and>
           read_block r 0 (rows_per_proc np) =
             map (\<lambda>i. fold (\<lambda>j acc. add acc (mul (a (i * N + j)) (x j))) [0..<N] zero)
               [0..<rows_per_proc np] \<and>
           (\<forall>i. rows_per_proc np \<le> i \<longrightarrow> r i = lr i))) \<and>
   (0 < np \<and> np < 4 \<longrightarrow>
      mm_loop_root add mul zero np a x lr = Inl OutOfBounds \<and>
      mm_loop_worker add mul zero np a x lr = Inl OutOfBounds)"
proof (intro conjI allI impI)
  show "read_block (localSum (add_compute_root np m)) 0 (LENGTH div np) =
     map2 (+) (read_block (localA m) 0 (LENGTH div np)) (read_block (localB m) 0 (LENGTH div np))"
    unfolding read_block_map2 by (simp add: add_compute_root_eq read_block_def)
  show "read_block (localSum (add_compute_worker np m)) 0 (LENGTH div np) =
     map2 (+) (read_block (localA m) 0 (LENGTH div np)) (read_block (localB m) 0 (LENGTH div np))"
    unfolding read_block_map2 by (simp add: add_compute_worker_eq read_block_def)
  show "length (read_block (localSum (add_compute_worker np m)) 0 (LENGTH div np)) =
     length (read_block (localA m) 0 (LENGTH div np))"
    by simp
next
  fix j assume "LENGTH div np \<le> j"
  then show "localSum (add_compute_root np m) j = localSum m j"
    and "localSum (add_compute_worker np m) j = localSum m j"
    by (simp_all add: add_compute_root_eq add_compute_worker_eq)
next
  fix w' assume ok: "mm_compute_root np w = Inr w' \<or> mm_compute_worker np w = Inr w'"
  then have r: "mm_compute_root np w = Inr w'" by (simp add: mm_compute_same)
  have cap: "rows_per_proc np \<le> cap_localResult"
  proof (rule ccontr)
    assume "\<not> rows_per_proc np \<le> cap_localResult"
    then have "mm_compute_root np w = Inl OutOfBounds"
      by (intro mm_compute_root_overflow) simp
    then show False using r by simp
  qed
  have w': "w' = w\<lparr>localResult := (\<lambda>i. if i < rows_per_proc np then dot_row (mm_localA w) (matX w) i
                                else localResult w i)\<rparr>"
    using r by (simp add: mm_compute_root_ok [OF cap])
  show "read_block (localResult w') 0 (rows_per_proc np) =
        map (dot_row (mm_localA w) (matX w)) [0..<rows_per_proc np]"
    unfolding w' by (simp add: read_block_def)
  show "length (read_block (localResult w') 0 (rows_per_proc np)) = rows_per_proc np"
    by simp
  fix i assume "rows_per_proc np \<le> i"
  then show "localResult w' i = localResult w i"
    unfolding w' by simp
next
  assume "4 \<le> np"
  then have cap: "rows_per_proc np \<le> cap_localResult" by (rule rows_cap)
  show "\<exists>w'. mm_compute_root np w = Inr w'" by (simp add: mm_compute_root_ok [OF cap])
  show "\<exists>w'. mm_compute_worker np w = Inr w'" by (simp add: mm_compute_worker_ok [OF cap])
next
  assume "0 < np \<and> np < 4"
  then have "\<not> rows_per_proc np \<le> cap_localResult"
    by (simp add: rows_cap_iff)
  then have over: "cap_localResult < rows_per_proc np" by simp
  show "mm_compute_root np w = Inl OutOfBounds"
    by (rule mm_compute_root_overflow [OF over])
  show "mm_compute_worker np w = Inl OutOfBounds"
    by (rule mm_compute_worker_overflow [OF over])
  show "mm_loop_root add mul zero np a x lr = Inl OutOfBounds"
    by (rule mm_loop_root_overflow [OF over])
  show "mm_loop_worker add mul zero np a x lr = Inl OutOfBounds"
    by (rule mm_loop_worker_overflow [OF over])
next
  show "read_block (add_loop_root pl np la lb ls) 0 (LENGTH div np) =
     map2 pl (read_block la 0 (LENGTH div np)) (read_block lb 0 (LENGTH div np))"
    unfolding read_block_map2 by (simp add: add_loop_root_eq read_block_def)
  show "read_block (add_loop_worker pl np la lb ls) 0 (LENGTH div np) =
     map2 pl (read_block la 0 (LENGTH div np)) (read_block lb 0 (LENGTH div np))"
    unfolding read_block_map2 by (simp add: add_loop_worker_eq read_block_def)
next
  fix j assume "LENGTH div np \<le> j"
  then show "add_loop_root pl np la lb ls j = ls j"
    and "add_loop_worker pl np la lb ls j = ls j"
    by (simp_all add: add_loop_root_eq add_loop_worker_eq)
next
  assume "4 \<le> np"
  then have cap: "rows_per_proc np \<le> cap_localResult" by (rule rows_cap)
  show "\<exists>r. mm_loop_root add mul zero np a x lr = Inr r \<and>
           mm_loop_worker add mul zero np a x lr = Inr r \<and>
           read_block r 0 (rows_per_proc np) =
             map (\<lambda>i. fold (\<lambda>j acc. add acc (mul (a (i * N + j)) (x j))) [0..<N] zero)
               [0..<rows_per_proc np] \<and>
           (\<forall>i. rows_per_proc np \<le> i \<longrightarrow> r i = lr i)"
    by (simp add: mm_loop_root_ok [OF cap] mm_loop_worker_ok [OF cap] read_block_def)
qed


theorem compute_preserves_shape_witness:
  "(4::nat) \<le> 4 \<and> (0::nat) < 2 \<and> (2::nat) < 4 \<and>
   read_block (localSum (add_compute_root 4 add_mem1)) 0 (LENGTH div 4) =
     [100, 102, 104, 106, 108, 110, 112, 114, 116, 118, 120, 122] \<and>
   read_block (localSum (add_compute_worker 4 add_mem1)) 0 (LENGTH div 4) =
     [100, 102, 104, 106, 108, 110, 112, 114, 116, 118, 120, 122] \<and>
   length (read_block (localSum (add_compute_worker 4 add_mem1)) 0 (LENGTH div 4)) = 12 \<and>
   length (read_block (localA add_mem1) 0 (LENGTH div 4)) = 12 \<and>
   LENGTH div 4 \<le> 12 \<and>
   localSum (add_compute_root 4 add_mem1) 12 = - 3 \<and>
   localSum (add_compute_worker 4 add_mem1) 12 = - 3 \<and>
   (\<exists>w'. mm_compute_worker 4 mm_mem1 = Inr w' \<and>
      read_block (localResult w') 0 (rows_per_proc 4) =
        [Exact 1360, Exact 3536, Exact 5712, Exact 7888] \<and>
      length (read_block (localResult w') 0 (rows_per_proc 4)) = 4 \<and>
      rows_per_proc 4 \<le> 4 \<and> localResult w' 4 = Inexact) \<and>
   mm_compute_root 2 mm_mem1 = Inl OutOfBounds \<and>
   mm_compute_worker 2 mm_mem1 = Inl OutOfBounds \<and>
   read_block (add_loop_worker (\<lambda>a b. (a + b) mod 256) 4 (\<lambda>j. 250 + int j) (\<lambda>j. int j) (\<lambda>_. 0))
       0 (LENGTH div 4) = [250, 252, 254, 0, 2, 4, 6, 8, 10, 12, 14, 16] \<and>
   (\<exists>r. mm_loop_worker (+) (*) 0 4 (\<lambda>k. int k) (\<lambda>j. int j + 1) (\<lambda>_. - 1) = Inr r \<and>
      read_block r 0 (rows_per_proc 4) = [1360, 3536, 5712, 7888] \<and> r 4 = - 1)"
proof -
  note inst = compute_preserves_shape [where np = 4 and m = add_mem1 and w = mm_mem1
      and pl = "\<lambda>a b. (a + b) mod 256" and la = "\<lambda>j. 250 + int j" and lb = "\<lambda>j. int j"
      and ls = "\<lambda>_. 0"
      and add = "(+)" and mul = "(*)" and zero = 0 and a = "\<lambda>k. int k" and x = "\<lambda>j. int j + 1"
      and lr = "\<lambda>_. - 1"]
  note over = compute_preserves_shape [where np = 2 and w = mm_mem1, THEN conjunct2, THEN conjunct2, THEN conjunct2, THEN conjunct2, THEN conjunct2, THEN conjunct2, THEN conjunct1]
  have h: "(4::nat) \<le> 4" "(0::nat) < 2 \<and> (2::nat) < 4" by simp_all
  have up12: "[0..<12] = [0, 1, 2, 3, 4, 5, 6, 7, 8, 9, 10, 11 :: nat]"
    by code_simp
  have up: "[0..<4] = [0, 1, 2, 3 :: nat]"
    "[0..<16] = [0, 1, 2, 3, 4, 5, 6, 7, 8, 9, 10, 11, 12, 13, 14, 15 :: nat]"
    by code_simp+
  have c: "LENGTH div 4 = 12" by (simp add: LENGTH_def)
  have rows: "rows_per_proc 4 = 4" by (simp add: rows_per_proc_def N_def)
  have val: "map2 (+) (read_block (localA add_mem1) 0 (LENGTH div 4))
               (read_block (localB add_mem1) 0 (LENGTH div 4)) =
             [100, 102, 104, 106, 108, 110, 112, 114, 116, 118, 120, 122]"
    unfolding c read_block_def by (simp add: add_mem1_def up12)
  have s1: "read_block (localSum (add_compute_root 4 add_mem1)) 0 (LENGTH div 4) =
     [100, 102, 104, 106, 108, 110, 112, 114, 116, 118, 120, 122]"
    using inst [THEN conjunct1] val by simp
  have s2: "read_block (localSum (add_compute_worker 4 add_mem1)) 0 (LENGTH div 4) =
     [100, 102, 104, 106, 108, 110, 112, 114, 116, 118, 120, 122]"
    using inst [THEN conjunct2, THEN conjunct1] val by simp
  have l1: "length (read_block (localSum (add_compute_worker 4 add_mem1)) 0 (LENGTH div 4)) = 12"
    and l2: "length (read_block (localA add_mem1) 0 (LENGTH div 4)) = 12"
    using inst [THEN conjunct2, THEN conjunct2, THEN conjunct1] by (simp_all add: c)
  have le: "LENGTH div 4 \<le> 12" by (simp add: c)
  have f0: "localSum (add_compute_root 4 add_mem1) 12 = localSum add_mem1 12 \<and>
      localSum (add_compute_worker 4 add_mem1) 12 = localSum add_mem1 12"
    using inst [THEN conjunct2, THEN conjunct2, THEN conjunct2, THEN conjunct1, THEN spec, of 12] le by simp
  have f1: "localSum (add_compute_root 4 add_mem1) 12 = - 3"
    and f2: "localSum (add_compute_worker 4 add_mem1) 12 = - 3"
    using f0 by (simp_all add: add_mem1_def)
  obtain w' where w': "mm_compute_worker 4 mm_mem1 = Inr w'"
    using inst [THEN conjunct2, THEN conjunct2, THEN conjunct2, THEN conjunct2, THEN conjunct2, THEN conjunct1] h(1) by (elim impE conjE exE)
  have sh: "read_block (localResult w') 0 (rows_per_proc 4) =
        map (dot_row (mm_localA mm_mem1) (matX mm_mem1)) [0..<rows_per_proc 4] \<and>
      length (read_block (localResult w') 0 (rows_per_proc 4)) = rows_per_proc 4 \<and>
      (\<forall>i. rows_per_proc 4 \<le> i \<longrightarrow> localResult w' i = localResult mm_mem1 i)"
    using inst [THEN conjunct2, THEN conjunct2, THEN conjunct2, THEN conjunct2, THEN conjunct1, THEN spec, of w'] w' by simp
  have dots: "map (dot_row (mm_localA mm_mem1) (matX mm_mem1)) [0..<rows_per_proc 4] =
      [Exact 1360, Exact 3536, Exact 5712, Exact 7888]"
    unfolding rows dot_row_def N_def up by (simp add: mm_mem1_def flt_of_int_def)
  have r1: "read_block (localResult w') 0 (rows_per_proc 4) =
        [Exact 1360, Exact 3536, Exact 5712, Exact 7888]"
    using sh dots by simp
  have r2: "length (read_block (localResult w') 0 (rows_per_proc 4)) = 4"
    using sh rows by simp
  have r3: "rows_per_proc 4 \<le> 4" by (simp add: rows)
  have r4: "localResult w' 4 = Inexact"
    using sh r3 by (simp add: mm_mem1_def)
  have ex1: "\<exists>w'. mm_compute_worker 4 mm_mem1 = Inr w' \<and>
      read_block (localResult w') 0 (rows_per_proc 4) =
        [Exact 1360, Exact 3536, Exact 5712, Exact 7888] \<and>
      length (read_block (localResult w') 0 (rows_per_proc 4)) = 4 \<and>
      rows_per_proc 4 \<le> 4 \<and> localResult w' 4 = Inexact"
    using w' r1 r2 r3 r4 by (intro exI [of _ w'] conjI)
  have o: "mm_compute_root 2 mm_mem1 = Inl OutOfBounds \<and>
     mm_compute_worker 2 mm_mem1 = Inl OutOfBounds"
    using over h(2) by simp
  have gval: "map2 (\<lambda>a b. (a + b) mod 256) (read_block (\<lambda>j. 250 + int j) 0 (LENGTH div 4))
               (read_block (\<lambda>j. int j) 0 (LENGTH div 4)) =
             [250, 252, 254, 0, 2, 4, 6, 8, 10, 12, 14, 16]"
    unfolding c read_block_def by (simp add: up12)
  have g1: "read_block (add_loop_worker (\<lambda>a b. (a + b) mod 256) 4 (\<lambda>j. 250 + int j) (\<lambda>j. int j) (\<lambda>_. 0))
       0 (LENGTH div 4) = [250, 252, 254, 0, 2, 4, 6, 8, 10, 12, 14, 16]"
    using inst [THEN conjunct2, THEN conjunct2, THEN conjunct2, THEN conjunct2, THEN conjunct2, THEN conjunct2, THEN conjunct2, THEN conjunct2, THEN conjunct1] gval by simp
  obtain r where r: "mm_loop_worker (+) (*) 0 4 (\<lambda>k. int k) (\<lambda>j. int j + 1) (\<lambda>_. - 1) = Inr r"
    and rb: "read_block r 0 (rows_per_proc 4) =
             map (\<lambda>i. fold (\<lambda>j acc. acc + (int (i * N + j)) * (int j + 1)) [0..<N] 0)
               [0..<rows_per_proc 4]"
    and rf: "\<forall>i. rows_per_proc 4 \<le> i \<longrightarrow> r i = - 1"
    using inst [THEN conjunct2, THEN conjunct2, THEN conjunct2, THEN conjunct2, THEN conjunct2, THEN conjunct2, THEN conjunct2, THEN conjunct2, THEN conjunct2, THEN conjunct2, THEN conjunct1] h(1) by (elim impE conjE exE)
  have gdots: "map (\<lambda>i. fold (\<lambda>j acc. acc + (int (i * N + j)) * (int j + 1)) [0..<N] 0)
               [0..<rows_per_proc 4] = [1360, 3536, 5712, 7888]"
    unfolding rows N_def up by simp
  have ex2: "\<exists>r. mm_loop_worker (+) (*) 0 4 (\<lambda>k. int k) (\<lambda>j. int j + 1) (\<lambda>_. - 1) = Inr r \<and>
      read_block r 0 (rows_per_proc 4) = [1360, 3536, 5712, 7888] \<and> r 4 = - 1"
  proof (intro exI [of _ r] conjI)
    show "mm_loop_worker (+) (*) 0 4 (\<lambda>k. int k) (\<lambda>j. int j + 1) (\<lambda>_. - 1) = Inr r" by (rule r)
    show "read_block r 0 (rows_per_proc 4) = [1360, 3536, 5712, 7888]"
      using rb gdots by simp
    show "r 4 = - 1" using rf r3 by simp
  qed
  show ?thesis
    using h s1 s2 l1 l2 le f1 f2 ex1 o g1 ex2 by (intro conjI) (simp_all only: simp_thms)
qed

theorem mm_compute_two_processes_counterexample:
  "(2::nat) dvd N \<and> rows_per_proc 2 = 8 \<and> cap_localResult = 4 \<and>
   mm_compute_root 2 mm_mem1 = Inl OutOfBounds \<and>
   mm_compute_worker 2 mm_mem1 = Inl OutOfBounds \<and>
   (1::nat) dvd N \<and> rows_per_proc 1 = 16 \<and>
   mm_compute_root 1 mm_mem1 = Inl OutOfBounds"
proof -
  have a: "rows_per_proc 2 = 8" "rows_per_proc 1 = 16" "cap_localResult = 4"
    by (simp_all add: rows_per_proc_def cap_localResult_def N_def)
  have d: "(2::nat) dvd N" "(1::nat) dvd N"
    by (simp_all add: N_def)
  have o2: "cap_localResult < rows_per_proc 2" and o1: "cap_localResult < rows_per_proc 1"
    unfolding a by simp_all
  show ?thesis
    using d a mm_compute_root_overflow [OF o2, of mm_mem1] mm_compute_worker_overflow [OF o2, of mm_mem1]
      mm_compute_root_overflow [OF o1, of mm_mem1]
    by (intro conjI) (simp_all only: simp_thms)
qed


subsection \<open>C9: buffer bounds of the matrix program\<close>

lemma mm_scatter_isl: "isl (mm_scatter np me srcA m) \<longleftrightarrow> \<not> rows_per_proc np \<le> cap_localResult"
  by (simp add: mm_scatter_def scatter_cap_iff)

lemma mm_compute_root_isl: "isl (mm_compute_root np m) \<longleftrightarrow> \<not> rows_per_proc np \<le> cap_localResult"
proof (cases "rows_per_proc np \<le> cap_localResult")
  case True
  then show ?thesis by (simp add: mm_compute_root_ok)
next
  case False
  then show ?thesis by (simp add: mm_compute_root_overflow)
qed

lemma mm_compute_worker_isl:
  "isl (mm_compute_worker np m) \<longleftrightarrow> \<not> rows_per_proc np \<le> cap_localResult"
  by (simp add: mm_compute_same mm_compute_root_isl)

text \<open>
  C9 (amended). In \<open>scatter_matrix_mult.c\<close> the local buffers have the size that four
  processes need (\<open>localA\<close> holds \<open>N/4\<close> rows, \<open>localResult\<close> \<open>N/4\<close> entries), while the receive
  count \<open>rows_per_proc * N\<close> follows the actual group size, unchecked. The buffer accesses of
  the scatter and of the compute loops stay in bounds exactly when there are at least four
  processes; with fewer than four the receive count of the scatter exceeds the capacity of
  \<open>localA\<close>.
\<close>

theorem mm_in_bounds_iff:
  assumes "0 < np"
  shows "rows_per_proc 4 * N = cap_localA \<and> rows_per_proc 4 = cap_localResult \<and>
         (\<not> isl (mm_scatter np me srcA m) \<longleftrightarrow> 4 \<le> np) \<and>
         (\<not> isl (mm_compute_root np m) \<longleftrightarrow> 4 \<le> np) \<and>
         (\<not> isl (mm_compute_worker np m) \<longleftrightarrow> 4 \<le> np) \<and>
         (np < 4 \<longrightarrow> cap_localA < rows_per_proc np * N \<and>
                     mm_scatter np me srcA m = Inl OutOfBounds) \<and>
         (4 \<le> np \<and> me < np \<longrightarrow> \<not> isl (mm_run np names m0 me))"
proof -
  have "np < 4 \<Longrightarrow> cap_localA < rows_per_proc np * N"
    using rows_cap_iff [OF assms] scatter_cap_iff [of np] by simp
  then have parts: "rows_per_proc 4 * N = cap_localA \<and> rows_per_proc 4 = cap_localResult \<and>
         (\<not> isl (mm_scatter np me srcA m) \<longleftrightarrow> 4 \<le> np) \<and>
         (\<not> isl (mm_compute_root np m) \<longleftrightarrow> 4 \<le> np) \<and>
         (\<not> isl (mm_compute_worker np m) \<longleftrightarrow> 4 \<le> np) \<and>
         (np < 4 \<longrightarrow> cap_localA < rows_per_proc np * N \<and>
                     mm_scatter np me srcA m = Inl OutOfBounds)"
    using rows_cap_iff [OF assms]
    by (simp add: mm_scatter_isl mm_compute_root_isl mm_compute_worker_isl)
      (simp add: mm_scatter_def rows_per_proc_def cap_localA_def cap_localResult_def)
  have run: "\<not> isl (mm_run np names m0 me)" if h: "4 \<le> np" "me < np"
  proof (cases "me = 0")
    case True
    obtain p where "mm_run np names m0 0 = Inr p"
      using mm_run_root [OF h(1), of names m0] by (elim exE conjE)
    then show ?thesis using True by simp
  next
    case False
    then obtain w tr where "mm_run np names m0 me = Inr \<lparr>mem = w, trace = tr\<rparr>"
      using h mm_run_worker [of me np names m0] by auto
    then show ?thesis by simp
  qed
  have whole: "4 \<le> np \<and> me < np \<longrightarrow> \<not> isl (mm_run np names m0 me)"
    using run by simp
  show ?thesis
    using parts whole by (elim conjE, intro conjI) assumption+
qed

theorem mm_in_bounds_iff_witness:
  "(0::nat) < 2 \<and> (2::nat) < 4 \<and> cap_localA < rows_per_proc 2 * N \<and>
   mm_scatter 2 1 (mm_srcA 2 (\<lambda>_. mm_mem0)) mm_mem0 = Inl OutOfBounds \<and>
   isl (mm_compute_worker 2 mm_mem0)"
proof -
  have h: "(0::nat) < 2" by simp
  show ?thesis
    using mm_in_bounds_iff [OF h, of 1 "mm_srcA 2 (\<lambda>_. mm_mem0)" mm_mem0] by simp
qed

theorem mm_eight_processes_counterexample:
  "(8::nat) \<noteq> 4 \<and>
   \<not> isl (mm_scatter 8 1 (mm_srcA 8 (\<lambda>_. mm_mem0)) mm_mem0) \<and>
   \<not> isl (mm_scatter 8 0 (mm_srcA 8 (\<lambda>_. mm_mem0)) (mm_init mm_mem0)) \<and>
   \<not> isl (mm_compute_worker 8 mm_mem0) \<and>
   \<not> isl (mm_compute_root 8 mm_mem0) \<and>
   \<not> isl (mm_run 8 host (\<lambda>_. mm_mem0) 1) \<and>
   \<not> isl (mm_run 8 host (\<lambda>_. mm_mem0) 0)"
proof -
  have np: "(4::nat) \<le> 8" by simp
  have cap: "rows_per_proc 8 \<le> cap_localResult" by (rule rows_cap [OF np])
  have w: "\<not> isl (mm_run 8 host (\<lambda>_. mm_mem0) 1)"
    using mm_run_worker [of 1 8 host "\<lambda>_. mm_mem0"] by auto
  have r: "\<not> isl (mm_run 8 host (\<lambda>_. mm_mem0) 0)"
    using mm_run_root [OF np, of host "\<lambda>_. mm_mem0"] by auto
  show ?thesis
    using cap w r by (simp add: mm_scatter_isl mm_compute_root_isl mm_compute_worker_isl)
qed

subsection \<open>C6: partitioning\<close>

lemma mpi_scatter_block:
  assumes "i * c + c \<le> length ds"
  shows "mpi_scatter ds c i = map ((!) ds) [i * c..<i * c + c]"
proof (rule nth_equalityI)
  show "length (mpi_scatter ds c i) = length (map ((!) ds) [i * c..<i * c + c])"
    using assms by (simp add: mpi_scatter_def)
  fix j assume "j < length (mpi_scatter ds c i)"
  then have "j < c" by (simp add: mpi_scatter_def)
  then show "mpi_scatter ds c i ! j = map ((!) ds) [i * c..<i * c + c] ! j"
    using assms by (simp add: mpi_scatter_def)
qed

lemma blocks_disjoint:
  fixes c :: nat
  assumes "i \<noteq> k"
  shows "{i * c..<(i + 1) * c} \<inter> {k * c..<(k + 1) * c} = {}"
proof -
  have "{a * c..<(a + 1) * c} \<inter> {b * c..<(b + 1) * c} = {}" if "a < b" for a b :: nat
  proof -
    have "(a + 1) * c \<le> b * c" using that by (intro mult_le_mono1) simp
    then show ?thesis by auto
  qed
  then show ?thesis
    using assms by (cases "i < k") (auto simp: Int_commute not_less le_less)
qed

lemma scatter_concat:
  assumes "length ds = P * c"
  shows "concat (map (mpi_scatter ds c) [0..<P]) = ds"
proof -
  have "mpi_scatter ds c i = map ((!) ds) [i * c..<i * c + c]" if "i \<in> set [0..<P]" for i
  proof -
    have "Suc i * c \<le> P * c" using that by (intro mult_le_mono1) simp
    then show ?thesis using assms by (intro mpi_scatter_block) simp
  qed
  then have "map (mpi_scatter ds c) [0..<P] = map (\<lambda>i. map ((!) ds) [i * c..<i * c + c]) [0..<P]"
    by (intro map_cong) simp_all
  then have "concat (map (mpi_scatter ds c) [0..<P]) = map ((!) ds) [0..<P * c]"
    by (simp only: concat_blocks)
  also have "\<dots> = ds"
    using assms map_nth [of ds] by simp
  finally show ?thesis .
qed


lemma add_scatter_cells:
  assumes "\<not> add_invalid np" "r < np" "j < LENGTH div np"
  shows "localA (add_scatter np r (add_srcA np m0) (add_srcB np m0) m) j =
           A (add_init (m0 0)) (r * (LENGTH div np) + j)"
    and "localB (add_scatter np r (add_srcA np m0) (add_srcB np m0) m) j =
           B (add_init (m0 0)) (r * (LENGTH div np) + j)"
proof -
  have np: "0 < np" using assms(2) by simp
  have blk: "r * (LENGTH div np) + LENGTH div np \<le> LENGTH"
    by (rule add_valid_block [OF np assms(1,2)])
  then have lt: "r * (LENGTH div np) + j < LENGTH" using assms(3) by simp
  show "localA (add_scatter np r (add_srcA np m0) (add_srcB np m0) m) j =
           A (add_init (m0 0)) (r * (LENGTH div np) + j)"
    using assms(3) lt
    by (simp add: add_srcA_eq [OF np assms(1)] add_srcB_eq [OF np assms(1)] add_scatter_def Let_def
          mpi_scatter_map [OF blk] write_block_def add_init_eq)
  show "localB (add_scatter np r (add_srcA np m0) (add_srcB np m0) m) j =
           B (add_init (m0 0)) (r * (LENGTH div np) + j)"
    using assms(3) lt
    by (simp add: add_srcA_eq [OF np assms(1)] add_srcB_eq [OF np assms(1)] add_scatter_def Let_def
          mpi_scatter_map [OF blk] write_block_def add_init_eq)
qed

lemma mm_scatter_cells:
  assumes "4 \<le> np" "r < np"
  shows "\<exists>w'. mm_scatter np r (mm_srcA np w0) w = Inr w' \<and>
           (\<forall>i<rows_per_proc np. \<forall>j<N.
              mm_localA w' (i * N + j) = matA (mm_init (w0 0)) ((r * rows_per_proc np + i) * N + j))"
proof -
  have cap: "rows_per_proc np * N \<le> cap_localA"
    using rows_cap [OF assms(1)] by (simp add: scatter_cap_iff)
  have "write_block (mm_localA w) 0 (mpi_scatter (mm_srcA np w0) (rows_per_proc np * N) r) (i * N + j) =
        matA (mm_init (w0 0)) ((r * rows_per_proc np + i) * N + j)"
    if "i < rows_per_proc np" "j < N" for i j
  proof -
    have "r * rows_per_proc np + i < N"
      using rows_block [OF assms(2)] that(1) by simp
    then have "Suc (r * rows_per_proc np + i) * N \<le> N * N"
      by (intro mult_le_mono1) simp
    then have "(r * rows_per_proc np + i) * N + j < N * N"
      using that(2) by simp
    then show ?thesis
      using mm_local_cell [OF assms(2) that, of "mm_localA w" w0]
      by (simp add: mm_init_eq del: of_nat_add of_nat_mult)
  qed
  then show ?thesis
    by (simp add: mm_scatter_def cap)
qed

lemma scatter_read_back:
  assumes "length ds = P * c" "r < P"
  shows "read_block (write_block b 0 (mpi_scatter ds c r)) 0 c = mpi_scatter ds c r"
proof -
  have "Suc r * c \<le> P * c" using assms(2) by (intro mult_le_mono1) simp
  then have "length (mpi_scatter ds c r) = c"
    using assms(1) by (simp add: mpi_scatter_def)
  then show ?thesis
    using read_block_write_block [of b 0 "mpi_scatter ds c r"] by simp
qed

text \<open>
  C6. Scattering a dataset whose length \<open>P\<close> divides hands rank \<open>i\<close> exactly the elements
  with indices from \<open>i * (L/P)\<close> up to, not including, \<open>(i + 1) * (L/P)\<close>; the index ranges of
  two different ranks are disjoint; and the partitions in rank order, one after another,
  are the dataset. In a valid run of the addition program the cells a rank holds in
  \<open>localA\<close> and \<open>localB\<close> after the scatter are those elements of \<open>A\<close> and \<open>B\<close> of process 0, and
  the blocks of all ranks, in rank order, are \<open>A\<close> and \<open>B\<close>; in the matrix program, with at
  least four processes, the rows a rank holds in \<open>localA\<close> are the rows from
  \<open>r * rows_per_proc\<close> on of \<open>matA\<close> of process 0, and when \<open>np\<close> divides \<open>N\<close> the blocks of all
  ranks, in rank order, are the whole matrix. With one, two or three processes the scatter
  of the matrix program does not fit \<open>localA\<close>, whose size is that of \<open>N/4\<close> rows: no rank is
  left holding its partition.
\<close>

theorem partition_complete:
  "(0 < P \<and> P dvd length ds \<longrightarrow>
      (\<forall>i<P. mpi_scatter ds (length ds div P) i =
                map ((!) ds) [i * (length ds div P)..<(i + 1) * (length ds div P)]) \<and>
      (\<forall>i<P. \<forall>k<P. i \<noteq> k \<longrightarrow>
         {i * (length ds div P)..<(i + 1) * (length ds div P)} \<inter>
         {k * (length ds div P)..<(k + 1) * (length ds div P)} = {}) \<and>
      concat (map (mpi_scatter ds (length ds div P)) [0..<P]) = ds) \<and>
   (\<not> add_invalid np \<and> r < np \<longrightarrow>
      (\<forall>j<LENGTH div np.
         localA (add_scatter np r (add_srcA np m0) (add_srcB np m0) m) j =
           A (add_init (m0 0)) (r * (LENGTH div np) + j) \<and>
         localB (add_scatter np r (add_srcA np m0) (add_srcB np m0) m) j =
           B (add_init (m0 0)) (r * (LENGTH div np) + j)) \<and>
      length (add_srcA np m0) = LENGTH \<and> length (add_srcB np m0) = LENGTH) \<and>
   (4 \<le> np \<and> r < np \<longrightarrow>
      (\<exists>w'. mm_scatter np r (mm_srcA np w0) w = Inr w' \<and>
         (\<forall>i<rows_per_proc np. \<forall>j<N.
            mm_localA w' (i * N + j) = matA (mm_init (w0 0)) ((r * rows_per_proc np + i) * N + j))) \<and>
      (np dvd N \<longrightarrow> length (mm_srcA np w0) = N * N)) \<and>
   (0 < np \<and> np < 4 \<longrightarrow> mm_scatter np r srcA w = Inl OutOfBounds) \<and>
   (\<not> add_invalid np \<longrightarrow>
      concat (map (\<lambda>i. read_block
                (localA (add_scatter np i (add_srcA np m0) (add_srcB np m0) (m0 i))) 0 (LENGTH div np))
              [0..<np]) = read_block (A (add_init (m0 0))) 0 LENGTH \<and>
      concat (map (\<lambda>i. read_block
                (localB (add_scatter np i (add_srcA np m0) (add_srcB np m0) (m0 i))) 0 (LENGTH div np))
              [0..<np]) = read_block (B (add_init (m0 0))) 0 LENGTH) \<and>
   (4 \<le> np \<and> np dvd N \<longrightarrow>
      map (\<lambda>i. map_sum id (\<lambda>w'. read_block (mm_localA w') 0 (rows_per_proc np * N))
                 (mm_scatter np i (mm_srcA np w0) (w0 i))) [0..<np] =
        map (\<lambda>i. Inr (mpi_scatter (mm_srcA np w0) (rows_per_proc np * N) i)) [0..<np] \<and>
      concat (map (mpi_scatter (mm_srcA np w0) (rows_per_proc np * N)) [0..<np]) =
        read_block (matA (mm_init (w0 0))) 0 (N * N))"
proof (intro conjI impI)
  assume h: "0 < P \<and> P dvd length ds"
  let ?c = "length ds div P"
  have len: "length ds = P * ?c" using h by simp
  show "\<forall>i<P. mpi_scatter ds ?c i = map ((!) ds) [i * ?c..<(i + 1) * ?c]"
  proof (intro allI impI)
    fix i assume "i < P"
    then have "Suc i * ?c \<le> P * ?c" by (intro mult_le_mono1) simp
    then have "i * ?c + ?c \<le> length ds" using len by simp
    then show "mpi_scatter ds ?c i = map ((!) ds) [i * ?c..<(i + 1) * ?c]"
      using mpi_scatter_block [of i ?c ds] by (simp add: add.commute)
  qed
  show "\<forall>i<P. \<forall>k<P. i \<noteq> k \<longrightarrow> {i * ?c..<(i + 1) * ?c} \<inter> {k * ?c..<(k + 1) * ?c} = {}"
    using blocks_disjoint by blast
  show "concat (map (mpi_scatter ds ?c) [0..<P]) = ds"
    by (rule scatter_concat [OF len])
next
  assume h: "\<not> add_invalid np \<and> r < np"
  then have np: "0 < np" by simp
  show "\<forall>j<LENGTH div np.
         localA (add_scatter np r (add_srcA np m0) (add_srcB np m0) m) j =
           A (add_init (m0 0)) (r * (LENGTH div np) + j) \<and>
         localB (add_scatter np r (add_srcA np m0) (add_srcB np m0) m) j =
           B (add_init (m0 0)) (r * (LENGTH div np) + j)"
    using h by (simp add: add_scatter_cells)
  show "length (add_srcA np m0) = LENGTH" "length (add_srcB np m0) = LENGTH"
    using h by (simp_all add: add_srcA_eq [OF np] add_srcB_eq [OF np])
next
  assume h: "4 \<le> np \<and> r < np"
  show "\<exists>w'. mm_scatter np r (mm_srcA np w0) w = Inr w' \<and>
         (\<forall>i<rows_per_proc np. \<forall>j<N.
            mm_localA w' (i * N + j) = matA (mm_init (w0 0)) ((r * rows_per_proc np + i) * N + j))"
    using h mm_scatter_cells [of np r w0 w] by simp
  assume "np dvd N"
  then have "np * rows_per_proc np = N" by (simp add: rows_per_proc_def)
  then show "length (mm_srcA np w0) = N * N"
    by (simp add: mm_srcA_eq flip: mult.assoc)
next
  assume "0 < np \<and> np < 4"
  then have "\<not> rows_per_proc np \<le> cap_localResult"
    by (simp add: rows_cap_iff)
  then show "mm_scatter np r srcA w = Inl OutOfBounds"
    by (simp add: mm_scatter_def scatter_cap_iff)
next
  assume v: "\<not> add_invalid np"
  let ?c = "LENGTH div np"
  have tot: "np * ?c = LENGTH" by (rule add_valid_mult [OF v])
  have la: "length (add_srcA np m0) = np * ?c" and lb: "length (add_srcB np m0) = np * ?c"
    by (simp_all add: add_srcA_def add_srcB_def)
  have "map (\<lambda>i. read_block
                (localA (add_scatter np i (add_srcA np m0) (add_srcB np m0) (m0 i))) 0 ?c) [0..<np] =
        map (mpi_scatter (add_srcA np m0) ?c) [0..<np]"
    by (intro map_cong refl) (simp add: add_scatter_def Let_def scatter_read_back [OF la])
  then show "concat (map (\<lambda>i. read_block
                (localA (add_scatter np i (add_srcA np m0) (add_srcB np m0) (m0 i))) 0 ?c)
              [0..<np]) = read_block (A (add_init (m0 0))) 0 LENGTH"
    by (simp only: scatter_concat [OF la]) (simp add: add_srcA_def tot)
  have "map (\<lambda>i. read_block
                (localB (add_scatter np i (add_srcA np m0) (add_srcB np m0) (m0 i))) 0 ?c) [0..<np] =
        map (mpi_scatter (add_srcB np m0) ?c) [0..<np]"
    by (intro map_cong refl) (simp add: add_scatter_def Let_def scatter_read_back [OF lb])
  then show "concat (map (\<lambda>i. read_block
                (localB (add_scatter np i (add_srcA np m0) (add_srcB np m0) (m0 i))) 0 ?c)
              [0..<np]) = read_block (B (add_init (m0 0))) 0 LENGTH"
    by (simp only: scatter_concat [OF lb]) (simp add: add_srcB_def tot)
next
  assume h: "4 \<le> np \<and> np dvd N"
  let ?c = "rows_per_proc np * N"
  have cap: "?c \<le> cap_localA"
    using rows_cap [of np] h by (simp add: scatter_cap_iff)
  have tot: "np * rows_per_proc np = N" using h by (simp add: rows_per_proc_def)
  have len: "length (mm_srcA np w0) = np * ?c"
    by (simp add: mm_srcA_def)
  show "map (\<lambda>i. map_sum id (\<lambda>w'. read_block (mm_localA w') 0 ?c)
                 (mm_scatter np i (mm_srcA np w0) (w0 i))) [0..<np] =
        map (\<lambda>i. Inr (mpi_scatter (mm_srcA np w0) ?c i)) [0..<np]"
    by (intro map_cong refl) (simp add: mm_scatter_def cap scatter_read_back [OF len])
  have "np * ?c = (np * rows_per_proc np) * N" by (simp only: mult.assoc)
  then have all: "np * ?c = N * N" by (simp only: tot)
  show "concat (map (mpi_scatter (mm_srcA np w0) ?c) [0..<np]) =
        read_block (matA (mm_init (w0 0))) 0 (N * N)"
    unfolding scatter_concat [OF len] unfolding mm_srcA_def all by (rule refl)
qed


theorem partition_complete_witness:
  "(0::nat) < 3 \<and> (3::nat) dvd length [10, 20, 30, 40, 50, 60 :: int] \<and>
   mpi_scatter [10, 20, 30, 40, 50, 60 :: int] 2 1 = [30, 40] \<and>
   concat (map (mpi_scatter [10, 20, 30, 40, 50, 60 :: int] 2) [0..<3]) = [10, 20, 30, 40, 50, 60] \<and>
   \<not> add_invalid 4 \<and> (1::nat) < 4 \<and>
   localA (add_scatter 4 1 (add_srcA 4 (\<lambda>_. add_mem1)) (add_srcB 4 (\<lambda>_. add_mem1)) add_mem2) 0 = 12 \<and>
   localB (add_scatter 4 1 (add_srcA 4 (\<lambda>_. add_mem1)) (add_srcB 4 (\<lambda>_. add_mem1)) add_mem2) 0 = 60 \<and>
   concat (map (\<lambda>i. read_block
       (localA (add_scatter 4 i (add_srcA 4 (\<lambda>_. add_mem1)) (add_srcB 4 (\<lambda>_. add_mem1)) add_mem1))
       0 (LENGTH div 4)) [0..<4]) = map int [0..<48] \<and>
   (4::nat) \<le> 4 \<and> 4 dvd N \<and> length (mm_srcA 4 (\<lambda>_. mm_mem1)) = 256 \<and>
   (\<exists>w'. mm_scatter 4 1 (mm_srcA 4 (\<lambda>_. mm_mem1)) mm_mem2 = Inr w' \<and>
      mm_localA w' 0 = Exact 64 \<and> mm_localA w' 63 = Exact 127) \<and>
   concat (map (mpi_scatter (mm_srcA 4 (\<lambda>_. mm_mem1)) (rows_per_proc 4 * N)) [0..<4]) =
     map (\<lambda>k. Exact (int k)) [0..<256] \<and>
   (0::nat) < 2 \<and> (2::nat) < 4 \<and>
   mm_scatter 2 1 (mm_srcA 2 (\<lambda>_. mm_mem1)) mm_mem2 = Inl OutOfBounds"
proof -
  note inst = partition_complete [where P = 3 and ds = "[10, 20, 30, 40, 50, 60 :: int]"
      and np = 4 and r = 1 and ?m0.0 = "\<lambda>_. add_mem1" and m = add_mem2
      and ?w0.0 = "\<lambda>_. mm_mem1" and w = mm_mem2]
  note over = partition_complete [where np = 2 and r = 1 and srcA = "mm_srcA 2 (\<lambda>_. mm_mem1)"
      and w = mm_mem2, THEN conjunct2, THEN conjunct2, THEN conjunct2, THEN conjunct1]
  have len: "length [10, 20, 30, 40, 50, 60 :: int] = 6" by simp
  have h1: "(0::nat) < 3 \<and> (3::nat) dvd length [10, 20, 30, 40, 50, 60 :: int]"
    unfolding len by simp
  have h2: "\<not> add_invalid 4 \<and> (1::nat) < 4"
    by (simp add: add_invalid_def MAXPROC_def LENGTH_def)
  have h3: "(4::nat) \<le> 4 \<and> (1::nat) < 4" by simp
  have h4: "4 dvd N" by (simp add: N_def)
  have h5: "(0::nat) < 2 \<and> (2::nat) < 4" by simp
  have c: "length [10, 20, 30, 40, 50, 60 :: int] div 3 = 2"
    unfolding len by simp
  have a: "mpi_scatter [10, 20, 30, 40, 50, 60 :: int] 2 1 =
             map ((!) [10, 20, 30, 40, 50, 60 :: int]) [1 * 2..<(1 + 1) * 2]"
    and b: "concat (map (mpi_scatter [10, 20, 30, 40, 50, 60 :: int] 2) [0..<3]) = [10, 20, 30, 40, 50, 60]"
    using inst [THEN conjunct1] h1 unfolding c by simp_all
  have "[1 * 2..<(1 + 1) * 2] = [2, 3::nat]" by (simp add: upt_rec)
  then have a': "mpi_scatter [10, 20, 30, 40, 50, 60 :: int] 2 1 = [30, 40]"
    using a by simp
  have d: "0 < LENGTH div 4" "0 < rows_per_proc 4" "0 < N" "3 < rows_per_proc 4" "15 < N"
    by (simp_all add: LENGTH_def rows_per_proc_def N_def)
  have cells: "\<forall>j<LENGTH div 4.
         localA (add_scatter 4 1 (add_srcA 4 (\<lambda>_. add_mem1)) (add_srcB 4 (\<lambda>_. add_mem1)) add_mem2) j =
           A (add_init add_mem1) (1 * (LENGTH div 4) + j) \<and>
         localB (add_scatter 4 1 (add_srcA 4 (\<lambda>_. add_mem1)) (add_srcB 4 (\<lambda>_. add_mem1)) add_mem2) j =
           B (add_init add_mem1) (1 * (LENGTH div 4) + j)"
    using inst [THEN conjunct2, THEN conjunct1] h2 by simp
  have e1: "localA (add_scatter 4 1 (add_srcA 4 (\<lambda>_. add_mem1)) (add_srcB 4 (\<lambda>_. add_mem1)) add_mem2) 0 = 12"
    and e2: "localB (add_scatter 4 1 (add_srcA 4 (\<lambda>_. add_mem1)) (add_srcB 4 (\<lambda>_. add_mem1)) add_mem2) 0 = 60"
    using cells [THEN spec, of 0] d(1) by (simp_all add: add_init_eq LENGTH_def)
  have ca: "concat (map (\<lambda>i. read_block
       (localA (add_scatter 4 i (add_srcA 4 (\<lambda>_. add_mem1)) (add_srcB 4 (\<lambda>_. add_mem1)) add_mem1))
       0 (LENGTH div 4)) [0..<4]) = read_block (A (add_init add_mem1)) 0 LENGTH"
    using inst [THEN conjunct2, THEN conjunct2, THEN conjunct2, THEN conjunct2, THEN conjunct1] h2 by simp
  have "read_block (A (add_init add_mem1)) 0 LENGTH = map int [0..<48]"
    by (simp add: add_init_eq read_block_fill LENGTH_def)
  with ca have ca': "concat (map (\<lambda>i. read_block
       (localA (add_scatter 4 i (add_srcA 4 (\<lambda>_. add_mem1)) (add_srcB 4 (\<lambda>_. add_mem1)) add_mem1))
       0 (LENGTH div 4)) [0..<4]) = map int [0..<48]"
    by simp
  have f: "length (mm_srcA 4 (\<lambda>_. mm_mem1)) = 256"
    using inst [THEN conjunct2, THEN conjunct2, THEN conjunct1] h3 h4 by (simp add: N_def)
  have ex0: "\<exists>w'. mm_scatter 4 1 (mm_srcA 4 (\<lambda>_. mm_mem1)) mm_mem2 = Inr w' \<and>
         (\<forall>i<rows_per_proc 4. \<forall>j<N.
            mm_localA w' (i * N + j) = matA (mm_init mm_mem1) ((1 * rows_per_proc 4 + i) * N + j))"
    using inst [THEN conjunct2, THEN conjunct2, THEN conjunct1, THEN mp, OF h3, THEN conjunct1] .
  then obtain w' where g: "mm_scatter 4 1 (mm_srcA 4 (\<lambda>_. mm_mem1)) mm_mem2 = Inr w'"
    and g': "\<forall>i<rows_per_proc 4. \<forall>j<N.
            mm_localA w' (i * N + j) = matA (mm_init mm_mem1) ((1 * rows_per_proc 4 + i) * N + j)"
    by (elim exE conjE)
  have "mm_localA w' (0 * N + 0) = matA (mm_init mm_mem1) ((1 * rows_per_proc 4 + 0) * N + 0)"
    using g' [THEN spec, of 0, THEN mp, OF d(2), THEN spec, of 0, THEN mp, OF d(3)] .
  then have g0: "mm_localA w' 0 = Exact 64"
    by (simp add: mm_init_eq rows_per_proc_def N_def)
  have "mm_localA w' (3 * N + 15) = matA (mm_init mm_mem1) ((1 * rows_per_proc 4 + 3) * N + 15)"
    using g' [THEN spec, of 3, THEN mp, OF d(4), THEN spec, of 15, THEN mp, OF d(5)] .
  then have g63: "mm_localA w' 63 = Exact 127"
    by (simp add: mm_init_eq rows_per_proc_def N_def)
  have ex: "\<exists>w'. mm_scatter 4 1 (mm_srcA 4 (\<lambda>_. mm_mem1)) mm_mem2 = Inr w' \<and>
      mm_localA w' 0 = Exact 64 \<and> mm_localA w' 63 = Exact 127"
    using g g0 g63 by (intro exI [of _ w'] conjI)
  have cm: "concat (map (mpi_scatter (mm_srcA 4 (\<lambda>_. mm_mem1)) (rows_per_proc 4 * N)) [0..<4]) =
     read_block (matA (mm_init mm_mem1)) 0 (N * N)"
    using inst [THEN conjunct2, THEN conjunct2, THEN conjunct2, THEN conjunct2, THEN conjunct2] h3 h4 by simp
  have "read_block (matA (mm_init mm_mem1)) 0 (N * N) = map (\<lambda>k. Exact (int k)) [0..<256]"
    by (simp add: mm_init_eq read_block_fill N_def)
  with cm have cm': "concat (map (mpi_scatter (mm_srcA 4 (\<lambda>_. mm_mem1)) (rows_per_proc 4 * N)) [0..<4]) =
     map (\<lambda>k. Exact (int k)) [0..<256]"
    by simp
  have o: "mm_scatter 2 1 (mm_srcA 2 (\<lambda>_. mm_mem1)) mm_mem2 = Inl OutOfBounds"
    using over h5 by simp
  show ?thesis
    using h1 a' b h2 e1 e2 ca' h3 h4 f ex cm' h5 o by (intro conjI) (simp_all only: simp_thms)
qed

theorem mm_scatter_two_processes_counterexample:
  "(2::nat) dvd N \<and> rows_per_proc 2 * N = 128 \<and> cap_localA = 64 \<and>
   mm_scatter 2 0 (mm_srcA 2 (\<lambda>_. mm_mem1)) mm_mem1 = Inl OutOfBounds \<and>
   mm_scatter 2 1 (mm_srcA 2 (\<lambda>_. mm_mem1)) mm_mem1 = Inl OutOfBounds \<and>
   (1::nat) dvd N \<and> rows_per_proc 1 * N = 256 \<and>
   mm_scatter 1 0 (mm_srcA 1 (\<lambda>_. mm_mem1)) mm_mem1 = Inl OutOfBounds"
proof -
  have a: "rows_per_proc 2 * N = 128" "rows_per_proc 1 * N = 256" "cap_localA = 64"
    by (simp_all add: rows_per_proc_def cap_localA_def N_def)
  have d: "(2::nat) dvd N" "(1::nat) dvd N"
    by (simp_all add: N_def)
  have o2: "mm_scatter 2 me srcA m = Inl OutOfBounds" for me srcA m
    unfolding mm_scatter_def a by simp
  have o1: "mm_scatter 1 me srcA m = Inl OutOfBounds" for me srcA m
    unfolding mm_scatter_def a by simp
  show ?thesis
    using d a o2 [of 0 "mm_srcA 2 (\<lambda>_. mm_mem1)" mm_mem1] o2 [of 1 "mm_srcA 2 (\<lambda>_. mm_mem1)" mm_mem1]
      o1 [of 0 "mm_srcA 1 (\<lambda>_. mm_mem1)" mm_mem1]
    by (intro conjI) (simp_all only: simp_thms)
qed


subsection \<open>C3: 48 elements on 4 processes\<close>

lemma add_valid_4: "\<not> add_invalid 4" "LENGTH div 4 = 12" "LENGTH = 48"
  by (simp_all add: add_invalid_def MAXPROC_def LENGTH_def)

lemma map2_add_blocks:
  "map2 (+) (map int [a..<b]) (map (\<lambda>i. k + int i) [a..<b]) = map (\<lambda>i. k + 2 * int i) [a..<b]"
  by (rule nth_equalityI) simp_all

text \<open>
  C3. With 48 elements and 4 processes, every rank \<open>r\<close> prints as its local data the 12
  elements of \<open>A\<close> and of \<open>B\<close> from index \<open>12 * r\<close> on (\<open>A[i] = i\<close>, \<open>B[i] = 48 + i\<close>) and their
  elementwise sums; and the sums process 0 reports, its own block followed by the blocks
  received from ranks 1, 2 and 3 in that order, are \<open>48 + 2 * i\<close> for \<open>i = 0, \<dots>, 47\<close>, that is
  \<open>48, 50, \<dots>, 142\<close>.
\<close>

theorem scenario_A:
  "(\<forall>r<4. Print (LocalData r (names r)
                (map int [12 * r..<12 * r + 12])
                (map (\<lambda>i. 48 + int i) [12 * r..<12 * r + 12])
                (map2 (+) (map int [12 * r..<12 * r + 12])
                          (map (\<lambda>i. 48 + int i) [12 * r..<12 * r + 12])))
            \<in> set (trace_of (add_run 4 names m0 r))) \<and>
   reported_sums (trace_of (add_run 4 names m0 0)) = map (\<lambda>i. 48 + 2 * int i) [0..<48]"
proof (intro conjI allI impI)
  fix r :: nat assume r: "r < 4"
  show "Print (LocalData r (names r)
                (map int [12 * r..<12 * r + 12])
                (map (\<lambda>i. 48 + int i) [12 * r..<12 * r + 12])
                (map2 (+) (map int [12 * r..<12 * r + 12])
                          (map (\<lambda>i. 48 + int i) [12 * r..<12 * r + 12])))
            \<in> set (trace_of (add_run 4 names m0 r))"
  proof (cases "r = 0")
    case True
    then show ?thesis
      unfolding map2_add_blocks
      using add_run_root [of 4 names m0]
      by (simp add: add_valid_4 trace_of_def)
  next
    case False
    then show ?thesis
      unfolding map2_add_blocks
      using r add_run_worker [of r 4 names m0]
      by (simp add: add_valid_4 trace_of_def mult.commute)
  qed
next
  show "reported_sums (trace_of (add_run 4 names m0 0)) = map (\<lambda>i. 48 + 2 * int i) [0..<48]"
    using add_reported_sums [of 4 names m0] by (simp add: add_valid_4)
qed


theorem scenario_A_witness:
  "(2::nat) < 4 \<and>
   Print (LocalData 2 ''node2''
            [24, 25, 26, 27, 28, 29, 30, 31, 32, 33, 34, 35]
            [72, 73, 74, 75, 76, 77, 78, 79, 80, 81, 82, 83]
            [96, 98, 100, 102, 104, 106, 108, 110, 112, 114, 116, 118])
     \<in> set (trace_of (add_run 4 host (\<lambda>_. add_mem0) 2)) \<and>
   reported_sums (trace_of (add_run 4 host (\<lambda>_. add_mem0) 0)) =
     [48, 50, 52, 54, 56, 58, 60, 62, 64, 66, 68, 70, 72, 74, 76, 78, 80, 82, 84, 86, 88, 90, 92, 94, 96, 98, 100, 102, 104, 106, 108, 110, 112, 114, 116, 118, 120, 122, 124, 126, 128, 130, 132, 134, 136, 138, 140, 142]"
proof -
  note inst = scenario_A [of host "\<lambda>_. add_mem0"]
  have h: "(2::nat) < 4" by simp
  have a: "map int [12 * 2..<12 * 2 + 12] = [24, 25, 26, 27, 28, 29, 30, 31, 32, 33, 34, 35]"
    by (simp add: upt_rec)
  have b: "map (\<lambda>i. 48 + int i) [12 * 2..<12 * 2 + 12] = [72, 73, 74, 75, 76, 77, 78, 79, 80, 81, 82, 83]"
    by (simp add: upt_rec)
  have c: "map2 (+) [24, 25, 26, 27, 28, 29, 30, 31, 32, 33, 34, 35] [72, 73, 74, 75, 76, 77, 78, 79, 80, 81, 82, 83] =
           [96, 98, 100, 102, 104, 106, 108, 110, 112, 114, 116, 118 :: int]"
    by simp
  have d: "map (\<lambda>i. 48 + 2 * int i) [0..<48] = [48, 50, 52, 54, 56, 58, 60, 62, 64, 66, 68, 70, 72, 74, 76, 78, 80, 82, 84, 86, 88, 90, 92, 94, 96, 98, 100, 102, 104, 106, 108, 110, 112, 114, 116, 118, 120, 122, 124, 126, 128, 130, 132, 134, 136, 138, 140, 142]"
    by (simp add: upt_rec)
  have n: "host 2 = ''node2''" by (simp add: host_def)
  have "Print (LocalData 2 (host 2)
                (map int [12 * 2..<12 * 2 + 12])
                (map (\<lambda>i. 48 + int i) [12 * 2..<12 * 2 + 12])
                (map2 (+) (map int [12 * 2..<12 * 2 + 12])
                          (map (\<lambda>i. 48 + int i) [12 * 2..<12 * 2 + 12])))
            \<in> set (trace_of (add_run 4 host (\<lambda>_. add_mem0) 2))"
    using inst h by blast
  then have "Print (LocalData 2 ''node2''
            [24, 25, 26, 27, 28, 29, 30, 31, 32, 33, 34, 35]
            [72, 73, 74, 75, 76, 77, 78, 79, 80, 81, 82, 83]
            [96, 98, 100, 102, 104, 106, 108, 110, 112, 114, 116, 118])
     \<in> set (trace_of (add_run 4 host (\<lambda>_. add_mem0) 2))"
    unfolding a b c n .
  moreover have "reported_sums (trace_of (add_run 4 host (\<lambda>_. add_mem0) 0)) =
     [48, 50, 52, 54, 56, 58, 60, 62, 64, 66, 68, 70, 72, 74, 76, 78, 80, 82, 84, 86, 88, 90, 92, 94, 96, 98, 100, 102, 104, 106, 108, 110, 112, 114, 116, 118, 120, 122, 124, 126, 128, 130, 132, 134, 136, 138, 140, 142]"
    using inst unfolding d by blast
  ultimately show ?thesis using h by blast
qed

subsection \<open>C2: the 16 by 16 product on 4 processes\<close>

lemma mm_consts_4: "rows_per_proc 4 = 4" "N = 16" "(4::nat) * rows_per_proc 4 = 16"
  by (simp_all add: rows_per_proc_def N_def)

text \<open>
  C2. With \<open>N = 16\<close> and 4 processes, process 0 fills \<open>matA[i][j] = i * 16 + j\<close> and
  \<open>matX[i] = i + 1\<close>, and when its run ends the 16 cells of \<open>result\<close> hold the product:
  \<open>result[r]\<close> is the sum over \<open>j\<close> of \<open>matA[r][j] * matX[j]\<close>, each value exact in single
  precision. The block of rank \<open>i\<close> lies at offset \<open>4 * i\<close>: cells 0 to 3 are the results
  process 0 computed itself, and cells \<open>4 * i\<close> to \<open>4 * i + 3\<close> are the message rank \<open>i\<close> sent.
\<close>

theorem scenario_B:
  "\<exists>p. mm_run 4 names m0 0 = Inr p \<and>
     Print (MatrixA (map (\<lambda>k. Exact (int k)) [0..<16 * 16])) \<in> set (trace p) \<and>
     Print (VectorX (map (\<lambda>i. Exact (int i + 1)) [0..<16])) \<in> set (trace p) \<and>
     read_block (result (mem p)) 0 16 =
       map (\<lambda>r. Exact (\<Sum>j<16. (int r * 16 + int j) * (int j + 1))) [0..<16] \<and>
     read_block (result (mem p)) 0 4 = read_block (localResult (mem p)) 0 4 \<and>
     (\<forall>i. 0 < i \<and> i < 4 \<longrightarrow>
        sent_to 0 resulttag (trace_of (mm_run 4 names m0 i)) =
          [Floats (read_block (result (mem p)) (i * 4) 4)])"
proof -
  let ?row = "\<lambda>q. Exact (\<Sum>j<N. int (q * N + j) * (int j + 1))"
  have np: "(4::nat) \<le> 4" by simp
  obtain p where p: "mm_run 4 names m0 0 = Inr p"
    and res: "\<forall>q. result (mem p) q = (if q < 4 * rows_per_proc 4 then ?row q else result (m0 0) q)"
    and lres: "\<forall>q<rows_per_proc 4. localResult (mem p) q = ?row q"
    and tr: "trace p =
             [Print (NumProcs 4),
              Print (MatrixA (map (\<lambda>k. Exact (int k)) [0..<N * N])),
              Print (VectorX (map (\<lambda>i. Exact (int i + 1)) [0..<N])),
              Scatter (rows_per_proc 4 * N), Bcast N] @
             map (\<lambda>i. Recv i resulttag) [1..<4] @
             [Print (ResultVec (read_block (result (mem p)) 0 N)), Finalize, Exit 0]"
    using mm_run_root [OF np, of names m0] by blast
  have r16: "read_block (result (mem p)) 0 16 =
       map (\<lambda>r. Exact (\<Sum>j<16. (int r * 16 + int j) * (int j + 1))) [0..<16]"
    using res by (simp add: read_block_def mm_consts_4)
  have r4: "read_block (result (mem p)) 0 4 = read_block (localResult (mem p)) 0 4"
    using res lres by (simp add: read_block_def mm_consts_4)
  have sent: "sent_to 0 resulttag (trace_of (mm_run 4 names m0 i)) =
          [Floats (read_block (result (mem p)) (i * 4) 4)]" if hi: "0 < i \<and> i < 4" for i
  proof -
    obtain w where w: "mm_run 4 names m0 i =
     Inr \<lparr>mem = w,
          trace = [Scatter (rows_per_proc 4 * N), Bcast N,
                   Print (Computed i (names i)
                     (map (\<lambda>l. ?row (i * rows_per_proc 4 + l)) [0..<rows_per_proc 4])),
                   Send 0 resulttag (Floats
                     (map (\<lambda>l. ?row (i * rows_per_proc 4 + l)) [0..<rows_per_proc 4])),
                   Finalize, Exit 0]\<rparr>"
      using hi mm_run_worker [of i 4 names m0] by auto
    have "i * 4 + l < 16" if "l < 4" for l :: nat
      using that hi by simp
    then have "read_block (result (mem p)) (i * 4) 4 = map (\<lambda>l. ?row (i * 4 + l)) [0..<4]"
      using res by (intro nth_equalityI) (simp_all add: mm_consts_4)
    then show ?thesis
      using w by (simp add: trace_of_def mm_consts_4)
  qed
  show ?thesis
    using p tr r16 r4 sent by (intro exI [of _ p]) (simp add: mm_consts_4)
qed


theorem scenario_B_witness:
  "\<exists>p. mm_run 4 host (\<lambda>_. mm_mem0) 0 = Inr p \<and>
     read_block (result (mem p)) 0 16 =
       [Exact 1360, Exact 3536, Exact 5712, Exact 7888, Exact 10064, Exact 12240, Exact 14416, Exact 16592, Exact 18768, Exact 20944, Exact 23120, Exact 25296, Exact 27472, Exact 29648, Exact 31824, Exact 34000] \<and>
     sent_to 0 resulttag (trace_of (mm_run 4 host (\<lambda>_. mm_mem0) 1)) =
       [Floats (read_block (result (mem p)) (1 * 4) 4)] \<and>
     read_block (result (mem p)) (1 * 4) 4 = [Exact 10064, Exact 12240, Exact 14416, Exact 16592]"
proof -
  obtain p where p: "mm_run 4 host (\<lambda>_. mm_mem0) 0 = Inr p"
    and r: "read_block (result (mem p)) 0 16 =
       map (\<lambda>r. Exact (\<Sum>j<16. (int r * 16 + int j) * (int j + 1))) [0..<16]"
    and s: "\<forall>i. 0 < i \<and> i < 4 \<longrightarrow>
        sent_to 0 resulttag (trace_of (mm_run 4 host (\<lambda>_. mm_mem0) i)) =
          [Floats (read_block (result (mem p)) (i * 4) 4)]"
    using scenario_B [of host "\<lambda>_. mm_mem0"] by blast
  have d: "map (\<lambda>r. Exact (\<Sum>j<16. (int r * 16 + int j) * (int j + 1))) [0..<16] =
       [Exact 1360, Exact 3536, Exact 5712, Exact 7888, Exact 10064, Exact 12240, Exact 14416, Exact 16592, Exact 18768, Exact 20944, Exact 23120, Exact 25296, Exact 27472, Exact 29648, Exact 31824, Exact 34000]"
    by code_simp
  have r': "read_block (result (mem p)) 0 16 = [Exact 1360, Exact 3536, Exact 5712, Exact 7888, Exact 10064, Exact 12240, Exact 14416, Exact 16592, Exact 18768, Exact 20944, Exact 23120, Exact 25296, Exact 27472, Exact 29648, Exact 31824, Exact 34000]"
    using r unfolding d .
  have "read_block (result (mem p)) (1 * 4) 4 = take 4 (drop 4 (read_block (result (mem p)) 0 16))"
    by (simp add: read_block_def take_map drop_map take_upt)
  then have b: "read_block (result (mem p)) (1 * 4) 4 = [Exact 10064, Exact 12240, Exact 14416, Exact 16592]"
    unfolding r' by simp
  have "sent_to 0 resulttag (trace_of (mm_run 4 host (\<lambda>_. mm_mem0) 1)) =
          [Floats (read_block (result (mem p)) (1 * 4) 4)]"
    using s by simp
  then show ?thesis
    using p r' b by blast
qed

subsection \<open>C4: collection order, tags and identity\<close>

lemma recvs_map_recv: "recvs (map (\<lambda>i. Recv i t) is @ ys) = map (\<lambda>i. (i, t)) is @ recvs ys"
  by (induction "is") simp_all

lemma printed_collect_app:
  "printed (concat (map (\<lambda>i. [Recv i t1, Recv i t2, Print (f i)]) is) @ ys) = map f is @ printed ys"
  by (induction "is") simp_all

lemma recvs_collect_app:
  "recvs (concat (map (\<lambda>i. [Recv i t1, Recv i t2, Print (f i)]) is) @ ys) =
     concat (map (\<lambda>i. [(i, t1), (i, t2)]) is) @ recvs ys"
  by (induction "is") simp_all

text \<open>
  C4 (amended). In \<open>matrix_add_v2.c\<close> process 0 receives from each rank \<open>i\<close> with
  \<open>1 \<le> i < np\<close>, in ascending order of \<open>i\<close>, first the host name on tag 42 and then the sums on
  tag 43, two different tags; each rank sends exactly one message on each of them, and the
  line process 0 prints for rank \<open>i\<close> shows the host name and the sums that rank \<open>i\<close> sent. In
  \<open>scatter_matrix_mult.c\<close> process 0 receives one message from each rank, in ascending
  order, all on tag 45: the results, with no host name.
\<close>

theorem add_collects_pairs:
  assumes "0 < np" and "\<not> add_invalid np"
  shows "recvs (trace_of (add_run np names m0 0)) =
           concat (map (\<lambda>i. [(i, nametag), (i, datatag)]) [1..<np]) \<and>
         nametag \<noteq> datatag \<and>
         (\<exists>xs own.
            (\<forall>i. 0 < i \<and> i < np \<longrightarrow>
               sent_to 0 nametag (trace_of (add_run np names m0 i)) = [Name (names i)] \<and>
               sent_to 0 datatag (trace_of (add_run np names m0 i)) = [Ints (xs i)]) \<and>
            printed (trace_of (add_run np names m0 0)) =
              Distributing 0 (names 0) np # own #
              map (\<lambda>i. SumsFrom i (names i) (xs i)) [1..<np] @ [Ready]) \<and>
         (4 \<le> k \<longrightarrow>
            recvs (trace_of (mm_run k hosts w0 0)) = map (\<lambda>i. (i, resulttag)) [1..<k])"
proof (intro conjI impI)
  let ?c = "LENGTH div np"
  let ?xs = "\<lambda>i. map (\<lambda>i. int LENGTH + 2 * int i) [i * ?c..<i * ?c + ?c]"
  show "recvs (trace_of (add_run np names m0 0)) =
           concat (map (\<lambda>i. [(i, nametag), (i, datatag)]) [1..<np])"
    by (simp add: add_run_root [OF assms] trace_of_def recvs_collect_app)
  show "nametag \<noteq> datatag" by simp
  have sent: "\<forall>i. 0 < i \<and> i < np \<longrightarrow>
               sent_to 0 nametag (trace_of (add_run np names m0 i)) = [Name (names i)] \<and>
               sent_to 0 datatag (trace_of (add_run np names m0 i)) = [Ints (?xs i)]"
    using assms(2) by (simp add: add_run_worker trace_of_def)
  have "printed (trace_of (add_run np names m0 0)) =
              Distributing 0 (names 0) np #
              LocalData 0 (names 0) (map int [0..<?c]) (map (\<lambda>i. int LENGTH + int i) [0..<?c])
                (map (\<lambda>i. int LENGTH + 2 * int i) [0..<?c]) #
              map (\<lambda>i. SumsFrom i (names i) (?xs i)) [1..<np] @ [Ready]"
    by (simp add: add_run_root [OF assms] trace_of_def printed_collect_app)
  then have "(\<forall>i. 0 < i \<and> i < np \<longrightarrow>
               sent_to 0 nametag (trace_of (add_run np names m0 i)) = [Name (names i)] \<and>
               sent_to 0 datatag (trace_of (add_run np names m0 i)) = [Ints (?xs i)]) \<and>
            printed (trace_of (add_run np names m0 0)) =
              Distributing 0 (names 0) np #
              LocalData 0 (names 0) (map int [0..<?c]) (map (\<lambda>i. int LENGTH + int i) [0..<?c])
                (map (\<lambda>i. int LENGTH + 2 * int i) [0..<?c]) #
              map (\<lambda>i. SumsFrom i (names i) (?xs i)) [1..<np] @ [Ready]"
    using sent by (rule conjI [rotated])
  then show "\<exists>xs own.
            (\<forall>i. 0 < i \<and> i < np \<longrightarrow>
               sent_to 0 nametag (trace_of (add_run np names m0 i)) = [Name (names i)] \<and>
               sent_to 0 datatag (trace_of (add_run np names m0 i)) = [Ints (xs i)]) \<and>
            printed (trace_of (add_run np names m0 0)) =
              Distributing 0 (names 0) np # own #
              map (\<lambda>i. SumsFrom i (names i) (xs i)) [1..<np] @ [Ready]"
    by (intro exI [of _ ?xs] exI [of _ "LocalData 0 (names 0) (map int [0..<?c])
          (map (\<lambda>i. int LENGTH + int i) [0..<?c]) (map (\<lambda>i. int LENGTH + 2 * int i) [0..<?c])"])
next
  assume k: "4 \<le> k"
  obtain p where "mm_run k hosts w0 0 = Inr p"
    and "trace p =
             [Print (NumProcs k),
              Print (MatrixA (map (\<lambda>k. Exact (int k)) [0..<N * N])),
              Print (VectorX (map (\<lambda>i. Exact (int i + 1)) [0..<N])),
              Scatter (rows_per_proc k * N), Bcast N] @
             map (\<lambda>i. Recv i resulttag) [1..<k] @
             [Print (ResultVec (read_block (result (mem p)) 0 N)), Finalize, Exit 0]"
    using mm_run_root [OF k, of hosts w0] by blast
  then show "recvs (trace_of (mm_run k hosts w0 0)) = map (\<lambda>i. (i, resulttag)) [1..<k]"
    by (simp add: trace_of_def recvs_map_recv)
qed

theorem add_collects_pairs_witness:
  "(0::nat) < 4 \<and> \<not> add_invalid 4 \<and> (4::nat) \<le> 4 \<and>
   recvs (trace_of (add_run 4 host (\<lambda>_. add_mem0) 0)) =
     [(1, 42), (1, 43), (2, 42), (2, 43), (3, 42), (3, 43)] \<and>
   recvs (trace_of (mm_run 4 host (\<lambda>_. mm_mem0) 0)) = [(1, 45), (2, 45), (3, 45)] \<and>
   (\<exists>(xs :: nat \<Rightarrow> int list) own.
      sent_to 0 nametag (trace_of (add_run 4 host (\<lambda>_. add_mem0) 2)) = [Name ''node2''] \<and>
      sent_to 0 datatag (trace_of (add_run 4 host (\<lambda>_. add_mem0) 2)) = [Ints (xs 2)] \<and>
      printed (trace_of (add_run 4 host (\<lambda>_. add_mem0) 0)) =
        [Distributing 0 ''node0'' 4, own,
         SumsFrom 1 ''node1'' (xs 1), SumsFrom 2 ''node2'' (xs 2), SumsFrom 3 ''node3'' (xs 3),
         Ready])"
proof -
  have h1: "(0::nat) < 4" by simp
  have h2: "\<not> add_invalid 4" by (simp add: add_invalid_def MAXPROC_def LENGTH_def)
  have h3: "(4::nat) \<le> 4" by simp
  note inst = add_collects_pairs [OF h1 h2, of host "\<lambda>_. add_mem0" 4 host "\<lambda>_. mm_mem0"]
  have u: "[1..<4] = [1, 2, 3::nat]" by (simp add: upt_rec)
  have a: "recvs (trace_of (add_run 4 host (\<lambda>_. add_mem0) 0)) =
     [(1, 42), (1, 43), (2, 42), (2, 43), (3, 42), (3, 43)]"
    using inst unfolding u by (simp add: nametag_def datatag_def)
  have b: "recvs (trace_of (mm_run 4 host (\<lambda>_. mm_mem0) 0)) = [(1, 45), (2, 45), (3, 45)]"
    using inst h3 unfolding u by (simp add: resulttag_def)
  have ex: "\<exists>xs own.
            (\<forall>i. 0 < i \<and> i < 4 \<longrightarrow>
               sent_to 0 nametag (trace_of (add_run 4 host (\<lambda>_. add_mem0) i)) = [Name (host i)] \<and>
               sent_to 0 datatag (trace_of (add_run 4 host (\<lambda>_. add_mem0) i)) = [Ints (xs i)]) \<and>
            printed (trace_of (add_run 4 host (\<lambda>_. add_mem0) 0)) =
              Distributing 0 (host 0) 4 # own #
              map (\<lambda>i. SumsFrom i (host i) (xs i)) [1..<4] @ [Ready]"
    using inst by (elim conjE)
  then obtain xs own where s: "\<forall>i. 0 < i \<and> i < 4 \<longrightarrow>
               sent_to 0 nametag (trace_of (add_run 4 host (\<lambda>_. add_mem0) i)) = [Name (host i)] \<and>
               sent_to 0 datatag (trace_of (add_run 4 host (\<lambda>_. add_mem0) i)) = [Ints (xs i)]"
    and pr: "printed (trace_of (add_run 4 host (\<lambda>_. add_mem0) 0)) =
              Distributing 0 (host 0) 4 # own #
              map (\<lambda>i. SumsFrom i (host i) (xs i)) [1..<4] @ [Ready]"
    by (elim exE conjE)
  have c: "sent_to 0 nametag (trace_of (add_run 4 host (\<lambda>_. add_mem0) 2)) = [Name ''node2'']"
    and d: "sent_to 0 datatag (trace_of (add_run 4 host (\<lambda>_. add_mem0) 2)) = [Ints (xs 2)]"
    using s [rule_format, of 2] by (simp_all add: host_def)
  have e: "printed (trace_of (add_run 4 host (\<lambda>_. add_mem0) 0)) =
        [Distributing 0 ''node0'' 4, own,
         SumsFrom 1 ''node1'' (xs 1), SumsFrom 2 ''node2'' (xs 2), SumsFrom 3 ''node3'' (xs 3),
         Ready]"
    using pr unfolding u by (simp add: host_def)
  show ?thesis
    by (intro conjI exI [of _ xs] exI [of _ own]) (fact h1 h2 h3 a b c d e)+
qed

theorem mm_single_tag_counterexample:
  "recvs (trace_of (mm_run 4 host (\<lambda>_. mm_mem0) 0)) = [(1, 45), (2, 45), (3, 45)] \<and>
   sent_to 0 nametag (trace_of (mm_run 4 host (\<lambda>_. mm_mem0) 1)) = [] \<and>
   length (filter is_comm (drop 2 (trace_of (mm_run 4 host (\<lambda>_. mm_mem0) 1)))) = 1"
proof -
  have np: "(4::nat) \<le> 4" by simp
  have u: "[1..<4] = [1, 2, 3::nat]" by (simp add: upt_rec)
  obtain p where "mm_run 4 host (\<lambda>_. mm_mem0) 0 = Inr p"
    and "trace p =
             [Print (NumProcs 4),
              Print (MatrixA (map (\<lambda>k. Exact (int k)) [0..<N * N])),
              Print (VectorX (map (\<lambda>i. Exact (int i + 1)) [0..<N])),
              Scatter (rows_per_proc 4 * N), Bcast N] @
             map (\<lambda>i. Recv i resulttag) [1..<4] @
             [Print (ResultVec (read_block (result (mem p)) 0 N)), Finalize, Exit 0]"
    using mm_run_root [OF np, of host "\<lambda>_. mm_mem0"] by blast
  then have a: "recvs (trace_of (mm_run 4 host (\<lambda>_. mm_mem0) 0)) = [(1, 45), (2, 45), (3, 45)]"
    unfolding u by (simp add: trace_of_def resulttag_def)
  obtain w tr where "mm_run 4 host (\<lambda>_. mm_mem0) 1 = Inr \<lparr>mem = w, trace = tr\<rparr>"
    and "sent_to 0 nametag tr = []" and "length (filter is_comm (drop 2 tr)) = 1"
    using mm_run_worker [of 1 4 host "\<lambda>_. mm_mem0"]
    by (auto simp: resulttag_def nametag_def)
  then show ?thesis
    using a by (simp add: trace_of_def)
qed

subsection \<open>C10: the buffer of the collection loop\<close>

lemma add_front_cells:
  fixes m :: add_mem
  assumes "0 < np" "\<not> add_invalid np"
  defines "M \<equiv> add_compute_root np
             (add_scatter np 0 (map int [0..<LENGTH]) (map (\<lambda>i. int LENGTH + int i) [0..<LENGTH])
                (add_init m))"
  shows "A M = (\<lambda>i. if i < LENGTH then int i else A m i)"
    and "B M = (\<lambda>i. if i < LENGTH then int LENGTH + int i else B m i)"
    and "\<forall>j<LENGTH div np. localA M j = int j"
    and "\<forall>j<LENGTH div np. localB M j = int LENGTH + int j"
    and "\<forall>j<LENGTH div np. localSum M j = int LENGTH + 2 * int j"
    and "\<forall>j. LENGTH div np \<le> j \<longrightarrow> localSum M j = localSum m j"
proof -
  have blk: "0 * (LENGTH div np) + LENGTH div np \<le> LENGTH"
    using add_valid_block [OF assms(1,2,1)] .
  show "A M = (\<lambda>i. if i < LENGTH then int i else A m i)"
    and "B M = (\<lambda>i. if i < LENGTH then int LENGTH + int i else B m i)"
    unfolding M_def by (simp_all add: add_compute_root_eq add_scatter_def Let_def add_init_eq)
  show a: "\<forall>j<LENGTH div np. localA M j = int j"
    unfolding M_def using mpi_scatter_map [OF blk, of int]
    by (simp add: add_compute_root_eq add_scatter_def Let_def write_block_def)
  show b: "\<forall>j<LENGTH div np. localB M j = int LENGTH + int j"
    unfolding M_def using mpi_scatter_map [OF blk, of "\<lambda>i. int LENGTH + int i"]
    by (simp add: add_compute_root_eq add_scatter_def Let_def write_block_def)
  have s: "localSum M j = (if j < LENGTH div np then localA M j + localB M j else localSum m j)" for j
    unfolding M_def by (simp add: add_compute_root_eq add_scatter_def Let_def add_init_eq)
  show "\<forall>j<LENGTH div np. localSum M j = int LENGTH + 2 * int j"
    using a b by (simp add: s)
  show "\<forall>j. LENGTH div np \<le> j \<longrightarrow> localSum M j = localSum m j"
    by (simp add: s)
qed

lemma nth_differs: "i < length xs \<Longrightarrow> xs ! i \<noteq> ys ! i \<Longrightarrow> xs \<noteq> ys"
  by auto

lemma add_block_size:
  assumes "0 < np" "\<not> add_invalid np"
  shows "6 \<le> LENGTH div np"
proof -
  have "np \<le> 8" using assms(2) by (simp add: add_invalid_def MAXPROC_def)
  then have "48 div 8 \<le> 48 div np" using assms(1) by (intro div_le_mono2) simp_all
  then show ?thesis by (simp add: LENGTH_def)
qed


text \<open>
  C10 (amended). In \<open>matrix_add_v2.c\<close> process 0 receives the sums of every other rank into
  \<open>localSum\<close>, the buffer of its own local result. One pass of the collection loop replaces
  the first \<open>LENGTH/np\<close> cells of \<open>localSum\<close> by the sums received, prints them, and changes no
  other cell of \<open>localSum\<close> and no cell of \<open>A\<close>, \<open>B\<close>, \<open>localA\<close> or \<open>localB\<close>. So when there are at
  least two processes, after the loop those cells hold the sums the last rank, \<open>np - 1\<close>, sent,
  and no longer the sums of process 0; the cells of \<open>localSum\<close> from \<open>LENGTH/np\<close> on were never
  written; and none of the five integer arrays holds the consolidated sequence of all
  \<open>LENGTH\<close> sums.
\<close>

theorem localSum_overwritten:
  assumes "1 < np" and "\<not> add_invalid np"
  shows "(box i nametag = [Name h] \<and> box i datatag = [Ints xs] \<and> length xs = LENGTH div np \<longrightarrow>
            (\<exists>q box'. add_collect_step np i (p0, box) = Inr (q, box') \<and>
               read_block (localSum (mem q)) 0 (LENGTH div np) = xs \<and>
               (\<forall>j. LENGTH div np \<le> j \<longrightarrow> localSum (mem q) j = localSum (mem p0) j) \<and>
               A (mem q) = A (mem p0) \<and> B (mem q) = B (mem p0) \<and>
               localA (mem q) = localA (mem p0) \<and> localB (mem q) = localB (mem p0) \<and>
               trace q = trace p0 @ [Recv i nametag, Recv i datatag, Print (SumsFrom i h xs)])) \<and>
         (\<exists>p. add_run np names m0 0 = Inr p \<and>
            sent_to 0 datatag (trace_of (add_run np names m0 (np - 1))) =
              [Ints (read_block (localSum (mem p)) 0 (LENGTH div np))] \<and>
            read_block (localSum (mem p)) 0 (LENGTH div np) \<noteq>
              map (\<lambda>i. int LENGTH + 2 * int i) [0..<LENGTH div np] \<and>
            (\<forall>j. LENGTH div np \<le> j \<longrightarrow> localSum (mem p) j = localSum (m0 0) j) \<and>
            LENGTH div np < LENGTH \<and>
            read_block (localSum (mem p)) 0 LENGTH \<noteq> map (\<lambda>i. int LENGTH + 2 * int i) [0..<LENGTH] \<and>
            read_block (A (mem p)) 0 LENGTH \<noteq> map (\<lambda>i. int LENGTH + 2 * int i) [0..<LENGTH] \<and>
            read_block (B (mem p)) 0 LENGTH \<noteq> map (\<lambda>i. int LENGTH + 2 * int i) [0..<LENGTH] \<and>
            read_block (localA (mem p)) 0 LENGTH \<noteq> map (\<lambda>i. int LENGTH + 2 * int i) [0..<LENGTH] \<and>
            read_block (localB (mem p)) 0 LENGTH \<noteq> map (\<lambda>i. int LENGTH + 2 * int i) [0..<LENGTH])"
proof (intro conjI impI)
  assume h: "box i nametag = [Name h] \<and> box i datatag = [Ints xs] \<and> length xs = LENGTH div np"
  then have bn: "box i nametag = [Name h]" and bd: "box i datatag = [Ints xs]"
    and len: "length xs = LENGTH div np"
    by simp_all
  have rb: "read_block (write_block (localSum (mem p0)) 0 xs) 0 (LENGTH div np) = xs"
    using read_block_write_block [of "localSum (mem p0)" 0 xs] len by simp
  show "\<exists>q box'. add_collect_step np i (p0, box) = Inr (q, box') \<and>
               read_block (localSum (mem q)) 0 (LENGTH div np) = xs \<and>
               (\<forall>j. LENGTH div np \<le> j \<longrightarrow> localSum (mem q) j = localSum (mem p0) j) \<and>
               A (mem q) = A (mem p0) \<and> B (mem q) = B (mem p0) \<and>
               localA (mem q) = localA (mem p0) \<and> localB (mem q) = localB (mem p0) \<and>
               trace q = trace p0 @ [Recv i nametag, Recv i datatag, Print (SumsFrom i h xs)]"
    unfolding add_collect_step_ok [of box i h xs np p0, OF bn bd len]
    using rb len by (simp add: write_block_def)
next
  let ?c = "LENGTH div np"
  let ?cons = "map (\<lambda>i. int LENGTH + 2 * int i) [0..<LENGTH]"
  let ?M = "add_compute_root np
             (add_scatter np 0 (map int [0..<LENGTH]) (map (\<lambda>i. int LENGTH + int i) [0..<LENGTH])
                (add_init (m0 0)))"
  let ?last = "map (\<lambda>i. int LENGTH + 2 * int i) [(np - 1) * ?c..<(np - 1) * ?c + ?c]"
  have np: "0 < np" and np1: "np - 1 \<noteq> 0" "0 < np - 1" "np - 1 < np"
    using assms(1) by simp_all
  have c6: "6 \<le> ?c" by (rule add_block_size [OF np assms(2)])
  have cL: "?c < LENGTH"
  proof -
    have "2 * ?c \<le> np * ?c" using assms(1) by (intro mult_le_mono1) simp
    then show ?thesis using add_valid_mult [OF assms(2)] c6 by simp
  qed
  note cells = add_front_cells [OF np assms(2), of "m0 0"]
  obtain p where p: "add_run np names m0 0 = Inr p"
    and mem: "mem p = ?M\<lparr>hostname := (\<lambda>i. if 0 < i \<and> i \<le> np - 1 then names i else hostname (m0 0) i),
                         localSum := write_block (localSum ?M) 0 ?last\<rparr>"
    using add_run_root [OF np assms(2), of names m0] np1(1) by simp
  have blockc: "read_block (localSum (mem p)) 0 ?c = ?last"
    unfolding mem using read_block_write_block [of "localSum ?M" 0 ?last] by simp
  have sent: "sent_to 0 datatag (trace_of (add_run np names m0 (np - 1))) =
              [Ints (read_block (localSum (mem p)) 0 ?c)]"
    unfolding blockc add_run_worker [OF np1(2,3) assms(2)] trace_of_def
    by simp
  have first: "localSum (mem p) 0 = int LENGTH + 2 * int ((np - 1) * ?c)"
    unfolding mem using c6 by (simp add: write_block_def)
  have pos: "0 < (np - 1) * ?c" using np1(2) c6 by simp
  have own: "read_block (localSum (mem p)) 0 ?c \<noteq> map (\<lambda>i. int LENGTH + 2 * int i) [0..<?c]"
    using first pos c6 by (intro nth_differs [of 0]) simp_all
  have rest: "\<forall>j. ?c \<le> j \<longrightarrow> localSum (mem p) j = localSum (m0 0) j"
    unfolding mem using cells(6) by (simp add: write_block_def)
  have L1: "0 < LENGTH" "1 < LENGTH" by (simp_all add: LENGTH_def)
  have va: "A (mem p) 0 = 0" and vb: "B (mem p) 1 = int LENGTH + 1"
    unfolding mem using L1 by (simp_all add: cells(1,2))
  have vla: "localA (mem p) 0 = 0" and vlb: "localB (mem p) 1 = int LENGTH + 1"
    unfolding mem using cells(3,4) c6 by simp_all
  have s: "read_block (localSum (mem p)) 0 LENGTH \<noteq> ?cons"
    using first pos L1 by (intro nth_differs [of 0]) simp_all
  have a: "read_block (A (mem p)) 0 LENGTH \<noteq> ?cons"
    using va L1 by (intro nth_differs [of 0]) simp_all
  have b: "read_block (B (mem p)) 0 LENGTH \<noteq> ?cons"
    using vb L1 by (intro nth_differs [of 1]) simp_all
  have la: "read_block (localA (mem p)) 0 LENGTH \<noteq> ?cons"
    using vla L1 by (intro nth_differs [of 0]) simp_all
  have lb: "read_block (localB (mem p)) 0 LENGTH \<noteq> ?cons"
    using vlb L1 by (intro nth_differs [of 1]) simp_all
  show "\<exists>p. add_run np names m0 0 = Inr p \<and>
            sent_to 0 datatag (trace_of (add_run np names m0 (np - 1))) =
              [Ints (read_block (localSum (mem p)) 0 ?c)] \<and>
            read_block (localSum (mem p)) 0 ?c \<noteq> map (\<lambda>i. int LENGTH + 2 * int i) [0..<?c] \<and>
            (\<forall>j. ?c \<le> j \<longrightarrow> localSum (mem p) j = localSum (m0 0) j) \<and>
            ?c < LENGTH \<and>
            read_block (localSum (mem p)) 0 LENGTH \<noteq> ?cons \<and>
            read_block (A (mem p)) 0 LENGTH \<noteq> ?cons \<and>
            read_block (B (mem p)) 0 LENGTH \<noteq> ?cons \<and>
            read_block (localA (mem p)) 0 LENGTH \<noteq> ?cons \<and>
            read_block (localB (mem p)) 0 LENGTH \<noteq> ?cons"
    by (intro exI [of _ p] conjI) (fact p sent own rest cL s a b la lb)+
qed


theorem localSum_overwritten_witness:
  "(1::nat) < 4 \<and> \<not> add_invalid 4 \<and>
   (\<lambda>src tag. if tag = nametag then [Name ''node1''] else [Ints (replicate 12 7)]) 1 nametag = [Name ''node1''] \<and>
   (\<lambda>src tag. if tag = nametag then [Name ''node1''] else [Ints (replicate 12 7)]) 1 datatag = [Ints (replicate 12 7)] \<and>
   length (replicate 12 (7::int)) = LENGTH div 4 \<and>
   (\<exists>q box'. add_collect_step 4 1 (\<lparr>mem = add_mem0, trace = []\<rparr>, (\<lambda>src tag. if tag = nametag then [Name ''node1''] else [Ints (replicate 12 7)])) = Inr (q, box') \<and>
               read_block (localSum (mem q)) 0 (LENGTH div 4) = replicate 12 7 \<and>
               (\<forall>j. LENGTH div 4 \<le> j \<longrightarrow> localSum (mem q) j = localSum add_mem0 j) \<and>
               A (mem q) = A add_mem0 \<and> B (mem q) = B add_mem0 \<and>
               localA (mem q) = localA add_mem0 \<and> localB (mem q) = localB add_mem0 \<and>
               trace q = [Recv 1 nametag, Recv 1 datatag, Print (SumsFrom 1 ''node1'' (replicate 12 7))]) \<and>
   (\<exists>p. add_run 4 host (\<lambda>_. add_mem0) 0 = Inr p \<and>
            sent_to 0 datatag (trace_of (add_run 4 host (\<lambda>_. add_mem0) (4 - 1))) =
              [Ints (read_block (localSum (mem p)) 0 (LENGTH div 4))] \<and>
            read_block (localSum (mem p)) 0 (LENGTH div 4) \<noteq>
              map (\<lambda>i. int LENGTH + 2 * int i) [0..<LENGTH div 4] \<and>
            (\<forall>j. LENGTH div 4 \<le> j \<longrightarrow> localSum (mem p) j = localSum ((\<lambda>_. add_mem0) 0) j) \<and>
            LENGTH div 4 < LENGTH \<and>
            read_block (localSum (mem p)) 0 LENGTH \<noteq> map (\<lambda>i. int LENGTH + 2 * int i) [0..<LENGTH] \<and>
            read_block (A (mem p)) 0 LENGTH \<noteq> map (\<lambda>i. int LENGTH + 2 * int i) [0..<LENGTH] \<and>
            read_block (B (mem p)) 0 LENGTH \<noteq> map (\<lambda>i. int LENGTH + 2 * int i) [0..<LENGTH] \<and>
            read_block (localA (mem p)) 0 LENGTH \<noteq> map (\<lambda>i. int LENGTH + 2 * int i) [0..<LENGTH] \<and>
            read_block (localB (mem p)) 0 LENGTH \<noteq> map (\<lambda>i. int LENGTH + 2 * int i) [0..<LENGTH])"
proof -
  have h1: "(1::nat) < 4" by simp
  have h2: "\<not> add_invalid 4" by (simp add: add_invalid_def MAXPROC_def LENGTH_def)
  have h3: "(\<lambda>src tag. if tag = nametag then [Name ''node1''] else [Ints (replicate 12 7)]) 1 nametag = [Name ''node1''] \<and>
   (\<lambda>src tag. if tag = nametag then [Name ''node1''] else [Ints (replicate 12 7)]) 1 datatag = [Ints (replicate 12 7)] \<and>
   length (replicate 12 (7::int)) = LENGTH div 4"
    by (simp add: LENGTH_def nametag_def datatag_def)
  note inst = localSum_overwritten [OF h1 h2, of "(\<lambda>src tag. if tag = nametag then [Name ''node1''] else [Ints (replicate 12 7)])" 1 "''node1''" "replicate 12 7"
      "\<lparr>mem = add_mem0, trace = []\<rparr>" host "\<lambda>_. add_mem0"]
  have a: "(\<exists>q box'. add_collect_step 4 1 (\<lparr>mem = add_mem0, trace = []\<rparr>, (\<lambda>src tag. if tag = nametag then [Name ''node1''] else [Ints (replicate 12 7)])) = Inr (q, box') \<and>
               read_block (localSum (mem q)) 0 (LENGTH div 4) = replicate 12 7 \<and>
               (\<forall>j. LENGTH div 4 \<le> j \<longrightarrow> localSum (mem q) j = localSum add_mem0 j) \<and>
               A (mem q) = A add_mem0 \<and> B (mem q) = B add_mem0 \<and>
               localA (mem q) = localA add_mem0 \<and> localB (mem q) = localB add_mem0 \<and>
               trace q = [Recv 1 nametag, Recv 1 datatag, Print (SumsFrom 1 ''node1'' (replicate 12 7))])"
    using inst [THEN conjunct1, THEN mp, OF h3] by simp
  have b: "(\<exists>p. add_run 4 host (\<lambda>_. add_mem0) 0 = Inr p \<and>
            sent_to 0 datatag (trace_of (add_run 4 host (\<lambda>_. add_mem0) (4 - 1))) =
              [Ints (read_block (localSum (mem p)) 0 (LENGTH div 4))] \<and>
            read_block (localSum (mem p)) 0 (LENGTH div 4) \<noteq>
              map (\<lambda>i. int LENGTH + 2 * int i) [0..<LENGTH div 4] \<and>
            (\<forall>j. LENGTH div 4 \<le> j \<longrightarrow> localSum (mem p) j = localSum ((\<lambda>_. add_mem0) 0) j) \<and>
            LENGTH div 4 < LENGTH \<and>
            read_block (localSum (mem p)) 0 LENGTH \<noteq> map (\<lambda>i. int LENGTH + 2 * int i) [0..<LENGTH] \<and>
            read_block (A (mem p)) 0 LENGTH \<noteq> map (\<lambda>i. int LENGTH + 2 * int i) [0..<LENGTH] \<and>
            read_block (B (mem p)) 0 LENGTH \<noteq> map (\<lambda>i. int LENGTH + 2 * int i) [0..<LENGTH] \<and>
            read_block (localA (mem p)) 0 LENGTH \<noteq> map (\<lambda>i. int LENGTH + 2 * int i) [0..<LENGTH] \<and>
            read_block (localB (mem p)) 0 LENGTH \<noteq> map (\<lambda>i. int LENGTH + 2 * int i) [0..<LENGTH])"
    using inst [THEN conjunct2] .
  show ?thesis
    by (intro conjI)
      (fact h1 h2 h3 [THEN conjunct1] h3 [THEN conjunct2, THEN conjunct1]
         h3 [THEN conjunct2, THEN conjunct2] a b)+
qed

theorem single_process_counterexample:
  "\<not> add_invalid 1 \<and>
   recvs (trace_of (add_run 1 host (\<lambda>_. add_mem0) 0)) = [] \<and>
   map_sum id (\<lambda>p. read_block (localSum (mem p)) 0 48) (add_run 1 host (\<lambda>_. add_mem0) 0) =
     Inr (map (\<lambda>i. 48 + 2 * int i) [0..<48])"
proof -
  have h1: "(0::nat) < 1" by simp
  have h2: "\<not> add_invalid 1" by (simp add: add_invalid_def MAXPROC_def LENGTH_def)
  let ?M = "add_compute_root 1
             (add_scatter 1 0 (map int [0..<LENGTH]) (map (\<lambda>i. int LENGTH + int i) [0..<LENGTH])
                (add_init add_mem0))"
  note cells = add_front_cells [OF h1 h2, of add_mem0]
  have "read_block (localSum ?M) 0 LENGTH = map (\<lambda>i. int LENGTH + 2 * int i) [0..<LENGTH]"
    using cells(5) by (intro nth_equalityI) simp_all
  then have blk: "read_block (localSum ?M) 0 48 = map (\<lambda>i. 48 + 2 * int i) [0..<48]"
    by (simp add: LENGTH_def)
  have run: "add_run 1 host (\<lambda>_. add_mem0) 0 =
      Inr \<lparr>mem = ?M\<lparr>hostname := (\<lambda>i. if 0 < i \<and> i \<le> 1 - 1 then host i else hostname add_mem0 i),
                        localSum := localSum ?M\<rparr>,
           trace = [Print (Distributing 0 (host 0) 1),
                    Scatter (LENGTH div 1), Scatter (LENGTH div 1),
                    Print (LocalData 0 (host 0)
                      (map int [0..<LENGTH div 1])
                      (map (\<lambda>i. int LENGTH + int i) [0..<LENGTH div 1])
                      (map (\<lambda>i. int LENGTH + 2 * int i) [0..<LENGTH div 1])),
                    Print Ready, Finalize, Exit 0]\<rparr>"
    using add_run_root [OF h1 h2, of host "\<lambda>_. add_mem0"] by simp
  show ?thesis
    using h2 blk unfolding run by (simp add: trace_of_def)
qed

end
